theory Spec2Isabelle
  imports Complex_Main "HOL-Library.AList"
begin

section \<open>Text, patterns and number conversion\<close>

text \<open>
  The harness (\<^verbatim>\<open>compare.py\<close>, and its single-target sibling \<^verbatim>\<open>benchmark.py\<close>) reads the
  free-text report of the load generator with Python's \<^verbatim>\<open>re\<close> module.  Strings are modelled as
  lists of 8-bit characters.  The character classes below are those of \<^verbatim>\<open>re\<close> on ASCII text:
  \<^verbatim>\<open>\d\<close> is \<^verbatim>\<open>0-9\<close>, \<^verbatim>\<open>\w\<close> is \<^verbatim>\<open>[A-Za-z0-9_]\<close>, \<^verbatim>\<open>\s\<close> is the ASCII white space Python
  knows (codes 9 to 13 and 28 to 32), and \<^verbatim>\<open>.\<close> is every character but the line feed.
  Characters above 127 belong to none of \<^verbatim>\<open>\d\<close>, \<^verbatim>\<open>\w\<close>, \<^verbatim>\<open>\s\<close> here (Python classifies
  some non-ASCII code points as digits, letters or spaces; the generator prints ASCII).

  Python floats are modelled as exact real numbers: rounding is not part of the model.
\<close>

datatype exn = ValueError | IndexError | OSError | SystemExit int

definition and_then :: "exn + 'a \<Rightarrow> ('a \<Rightarrow> exn + 'b) \<Rightarrow> exn + 'b" where
  "and_then x f = (case x of Inl e \<Rightarrow> Inl e | Inr v \<Rightarrow> f v)"

definition is_digit :: "char \<Rightarrow> bool" where
  "is_digit c = (let n = (of_char c :: nat) in 48 \<le> n \<and> n \<le> 57)"

definition is_word :: "char \<Rightarrow> bool" where
  "is_word c = (let n = (of_char c :: nat) in
     (48 \<le> n \<and> n \<le> 57) \<or> (65 \<le> n \<and> n \<le> 90) \<or> n = 95 \<or> (97 \<le> n \<and> n \<le> 122))"

definition is_space :: "char \<Rightarrow> bool" where
  "is_space c = (let n = (of_char c :: nat) in (9 \<le> n \<and> n \<le> 13) \<or> (28 \<le> n \<and> n \<le> 32))"

definition is_digit_or_dot :: "char \<Rightarrow> bool" where
  "is_digit_or_dot c = (is_digit c \<or> c = CHR ''.'')"

definition is_any :: "char \<Rightarrow> bool" where
  "is_any c = (c \<noteq> CHR 0x0A)"

definition lower_char :: "char \<Rightarrow> char" where
  "lower_char c = (let n = (of_char c :: nat) in
     if 65 \<le> n \<and> n \<le> 90 then char_of (n + 32) else c)"

definition lower :: "string \<Rightarrow> string" where
  "lower s = map lower_char s"

subsection \<open>A backtracking matcher for the patterns the harness uses\<close>

text \<open>
  A pattern is a sequence of items: a literal text, a greedy \<^verbatim>\<open>C+\<close> over a character class,
  or a lazy \<^verbatim>\<open>C*?\<close>.  \<open>rx_match\<close> matches the items at the start of the text and gives back
  the piece of text each item consumed.  It explores the alternatives in the order of Python's
  backtracking matcher: a greedy item tries its longest run first and gives characters back
  one at a time (never fewer than one), a lazy item tries the empty run first and takes one
  more character at a time; the first alternative under which the rest of the pattern
  matches wins.  \<open>re_search\<close> tries every start position from the left, as \<^verbatim>\<open>re.search\<close>
  does; \<open>re_match\<close> only the start of the text, as \<^verbatim>\<open>re.match\<close>.
\<close>

datatype item = Lit string | Plus "char \<Rightarrow> bool" | LazyStar "char \<Rightarrow> bool"

primrec first_some :: "('a \<Rightarrow> 'b option) \<Rightarrow> 'a list \<Rightarrow> 'b option" where
  "first_some f [] = None"
| "first_some f (x # xs) = (case f x of None \<Rightarrow> first_some f xs | Some y \<Rightarrow> Some y)"

primrec rx_match :: "item list \<Rightarrow> string \<Rightarrow> string list option" where
  "rx_match [] s = Some []"
| "rx_match (it # its) s =
     (case it of
        Lit l \<Rightarrow>
          (if take (length l) s = l
           then map_option ((#) l) (rx_match its (drop (length l) s))
           else None)
      | Plus p \<Rightarrow>
          first_some (\<lambda>k. map_option ((#) (take k s)) (rx_match its (drop k s)))
            (rev [1 ..< Suc (length (takeWhile p s))])
      | LazyStar p \<Rightarrow>
          first_some (\<lambda>k. map_option ((#) (take k s)) (rx_match its (drop k s)))
            [0 ..< Suc (length (takeWhile p s))])"

definition re_match :: "item list \<Rightarrow> string \<Rightarrow> string list option" where
  "re_match its s = rx_match its s"

definition re_search :: "item list \<Rightarrow> string \<Rightarrow> string list option" where
  "re_search its s = first_some (\<lambda>i. rx_match its (drop i s)) [0 ..< Suc (length s)]"

text \<open>The text of a group that spans the \<open>n\<close> items from item \<open>i\<close> on.\<close>

definition group_text :: "string list \<Rightarrow> nat \<Rightarrow> nat \<Rightarrow> string" where
  "group_text m i n = concat (take n (drop i m))"

subsection \<open>\<^verbatim>\<open>float\<close> and \<^verbatim>\<open>int\<close> on matched text\<close>

definition digit_val :: "char \<Rightarrow> nat" where
  "digit_val c = of_char c - 48"

definition nat_of_digits :: "string \<Rightarrow> nat" where
  "nat_of_digits ds = foldl (\<lambda>a c. 10 * a + digit_val c) 0 ds"

definition int_part :: "string \<Rightarrow> string" where
  "int_part s = takeWhile (\<lambda>c. c \<noteq> CHR ''.'') s"

definition frac_part :: "string \<Rightarrow> string" where
  "frac_part s = drop 1 (dropWhile (\<lambda>c. c \<noteq> CHR ''.'') s)"

definition decimal_value :: "string \<Rightarrow> real" where
  "decimal_value s =
     real (nat_of_digits (int_part s)) + real (nat_of_digits (frac_part s)) / 10 ^ length (frac_part s)"

text \<open>
  \<^verbatim>\<open>float(t)\<close> for a text \<open>t\<close> that \<^verbatim>\<open>[\d.]+\<close> captured, the only texts the harness converts.
  Such a text is a float literal when it has at least one digit and at most one dot
  (\<^verbatim>\<open>"12"\<close>, \<^verbatim>\<open>"1.5"\<close>, \<^verbatim>\<open>"1."\<close>, \<^verbatim>\<open>".5"\<close>); on \<^verbatim>\<open>"."\<close> or \<^verbatim>\<open>"1.2.3"\<close> Python raises ValueError.
\<close>

definition is_decimal :: "string \<Rightarrow> bool" where
  "is_decimal s =
     (list_all is_digit_or_dot s \<and> list_ex is_digit s \<and> length (filter (\<lambda>c. c = CHR ''.'') s) \<le> 1)"

definition py_float :: "string \<Rightarrow> exn + real" where
  "py_float s = (if is_decimal s then Inr (decimal_value s) else Inl ValueError)"

text \<open>
  \<^verbatim>\<open>int(t)\<close> for a text that \<^verbatim>\<open>\d+\<close> captured: a non-empty run of digits, which always converts
  (the digit-count limit of recent interpreters is not modelled).
\<close>

definition py_int :: "string \<Rightarrow> int" where
  "py_int s = int (nat_of_digits s)"

section \<open>The metric extractor\<close>

text \<open>
  \<^verbatim>\<open>parse_latency_ms(s)\<close>: its pattern is \<^verbatim>\<open>([\d.]+)(\w+)\<close>, matched at the start of \<open>s\<close>; group 1
  is converted with \<^verbatim>\<open>float\<close> and group 2 is lower-cased before it is compared.
\<close>

definition RX_VALUE_UNIT :: "item list" where
  "RX_VALUE_UNIT = [Plus is_digit_or_dot, Plus is_word]"

definition parse_latency_ms :: "string \<Rightarrow> exn + real" where
  "parse_latency_ms s =
     (if s = [] then Inr 0
      else case re_match RX_VALUE_UNIT s of
             None \<Rightarrow> Inr 0
           | Some m \<Rightarrow>
               and_then (py_float (group_text m 0 1)) (\<lambda>v.
                 let u = lower (group_text m 1 1) in
                 if u = ''us'' then Inr (v / 1000)
                 else if u = ''ms'' then Inr v
                 else if u = ''s'' then Inr (v * 1000)
                 else Inr v))"

text \<open>
  The record \<^verbatim>\<open>parse_wrk\<close> fills.  Python keeps it in a dict with these seven keys; the numeric
  defaults are the integer 0.
\<close>

record metrics =
  rps :: real
  latency :: string
  latency_ms :: real
  p99 :: string
  p99_ms :: real
  requests :: int
  errors :: int

definition metrics0 :: metrics where
  "metrics0 = \<lparr>rps = 0, latency = ''0ms'', latency_ms = 0, p99 = ''0ms'', p99_ms = 0,
               requests = 0, errors = 0\<rparr>"

text \<open>
  The five patterns of \<^verbatim>\<open>parse_wrk\<close>, in the order the function searches them:
  \<^verbatim>\<open>Requests/sec:\s+([\d.]+)\<close>, \<^verbatim>\<open>Latency\s+([\d.]+\w+)\<close>, \<^verbatim>\<open>99%\s+([\d.]+\w+)\<close>,
  \<^verbatim>\<open>(\d+)\s+requests in\<close> and \<^verbatim>\<open>Socket errors:.*?(\d+)\<close>.
\<close>

definition RX_RPS :: "item list" where
  "RX_RPS = [Lit ''Requests/sec:'', Plus is_space, Plus is_digit_or_dot]"

definition RX_LATENCY :: "item list" where
  "RX_LATENCY = [Lit ''Latency'', Plus is_space, Plus is_digit_or_dot, Plus is_word]"

definition RX_P99 :: "item list" where
  "RX_P99 = [Lit ''99%'', Plus is_space, Plus is_digit_or_dot, Plus is_word]"

definition RX_REQUESTS :: "item list" where
  "RX_REQUESTS = [Plus is_digit, Plus is_space, Lit ''requests in'']"

definition RX_ERRORS :: "item list" where
  "RX_ERRORS = [Lit ''Socket errors:'', LazyStar is_any, Plus is_digit]"

definition set_rps :: "string \<Rightarrow> metrics \<Rightarrow> exn + metrics" where
  "set_rps output r =
     (case re_search RX_RPS output of
        None \<Rightarrow> Inr r
      | Some m \<Rightarrow> and_then (py_float (group_text m 2 1)) (\<lambda>v. Inr (r\<lparr>rps := v\<rparr>)))"

definition set_latency :: "string \<Rightarrow> metrics \<Rightarrow> exn + metrics" where
  "set_latency output r =
     (case re_search RX_LATENCY output of
        None \<Rightarrow> Inr r
      | Some m \<Rightarrow>
          and_then (parse_latency_ms (group_text m 2 2)) (\<lambda>v.
            Inr (r\<lparr>latency := group_text m 2 2, latency_ms := v\<rparr>)))"

definition set_p99 :: "string \<Rightarrow> metrics \<Rightarrow> exn + metrics" where
  "set_p99 output r =
     (case re_search RX_P99 output of
        None \<Rightarrow> Inr r
      | Some m \<Rightarrow>
          and_then (parse_latency_ms (group_text m 2 2)) (\<lambda>v.
            Inr (r\<lparr>p99 := group_text m 2 2, p99_ms := v\<rparr>)))"

definition set_requests :: "string \<Rightarrow> metrics \<Rightarrow> metrics" where
  "set_requests output r =
     (case re_search RX_REQUESTS output of
        None \<Rightarrow> r
      | Some m \<Rightarrow> r\<lparr>requests := py_int (group_text m 0 1)\<rparr>)"

definition set_errors :: "string \<Rightarrow> metrics \<Rightarrow> metrics" where
  "set_errors output r =
     (case re_search RX_ERRORS output of
        None \<Rightarrow> r
      | Some m \<Rightarrow> r\<lparr>errors := py_int (group_text m 2 1)\<rparr>)"

definition parse_wrk :: "string \<Rightarrow> exn + metrics" where
  "parse_wrk output =
     and_then (set_rps output metrics0) (\<lambda>r1.
     and_then (set_latency output r1) (\<lambda>r2.
     and_then (set_p99 output r2) (\<lambda>r3.
     Inr (set_errors output (set_requests output r3)))))"


text \<open>
  \<^verbatim>\<open>benchmark.py\<close> has its own copies of the two functions, \<^verbatim>\<open>parse_latency_ms\<close> and
  \<^verbatim>\<open>parse_wrk_output\<close>, with the same patterns and the same steps.
\<close>

definition parse_latency_ms_bench :: "string \<Rightarrow> exn + real" where
  "parse_latency_ms_bench latency_str =
     (if latency_str = [] then Inr 0
      else case re_match RX_VALUE_UNIT latency_str of
             None \<Rightarrow> Inr 0
           | Some m \<Rightarrow>
               and_then (py_float (group_text m 0 1)) (\<lambda>v.
                 let unit = lower (group_text m 1 1) in
                 if unit = ''us'' then Inr (v / 1000)
                 else if unit = ''ms'' then Inr v
                 else if unit = ''s'' then Inr (v * 1000)
                 else Inr v))"

definition parse_wrk_output :: "string \<Rightarrow> exn + metrics" where
  "parse_wrk_output output =
     (let result = metrics0 in
      and_then (case re_search RX_RPS output of
                  None \<Rightarrow> Inr result
                | Some m \<Rightarrow> and_then (py_float (group_text m 2 1)) (\<lambda>v. Inr (result\<lparr>rps := v\<rparr>)))
        (\<lambda>result.
      and_then (case re_search RX_LATENCY output of
                  None \<Rightarrow> Inr result
                | Some m \<Rightarrow>
                    and_then (parse_latency_ms_bench (group_text m 2 2)) (\<lambda>v.
                      Inr (result\<lparr>latency := group_text m 2 2, latency_ms := v\<rparr>)))
        (\<lambda>result.
      and_then (case re_search RX_P99 output of
                  None \<Rightarrow> Inr result
                | Some m \<Rightarrow>
                    and_then (parse_latency_ms_bench (group_text m 2 2)) (\<lambda>v.
                      Inr (result\<lparr>p99 := group_text m 2 2, p99_ms := v\<rparr>)))
        (\<lambda>result.
      let result = (case re_search RX_REQUESTS output of
                      None \<Rightarrow> result
                    | Some m \<Rightarrow> result\<lparr>requests := py_int (group_text m 0 1)\<rparr>) in
      let result = (case re_search RX_ERRORS output of
                      None \<Rightarrow> result
                    | Some m \<Rightarrow> result\<lparr>errors := py_int (group_text m 2 1)\<rparr>) in
      Inr result))))"

section \<open>The comparison of two targets\<close>

definition pct_diff :: "real \<Rightarrow> real \<Rightarrow> real" where
  "pct_diff a b = (if b = 0 then 0 else ((a - b) / b) * 100)"

section \<open>Configuration\<close>

text \<open>
  A scenario is the tuple \<^verbatim>\<open>(name, threads, connections, duration)\<close>.  The framework keys are
  the two keys of \<^verbatim>\<open>FRAMEWORKS\<close>; the argument parser admits no other (\<^verbatim>\<open>choices\<close>), so a
  lookup in \<^verbatim>\<open>FRAMEWORKS\<close> never fails.
\<close>

type_synonym scenario = "string \<times> nat \<times> nat \<times> nat"

definition SCENARIOS :: "scenario list" where
  "SCENARIOS =
     [(''Light'', 1, 10, 5),
      (''Medium'', 4, 50, 5),
      (''Heavy'', 8, 200, 5),
      (''Stress'', 12, 500, 5)]"

datatype fw_key = Metassr | Nextjs

record framework =
  fw_name :: string
  port :: nat
  docker_image :: string
  dockerfile :: string
  app_dir :: string

fun FRAMEWORKS :: "fw_key \<Rightarrow> framework" where
  "FRAMEWORKS Metassr =
     \<lparr>fw_name = ''MetaSSR'', port = 8080, docker_image = ''metassr-bench'',
      dockerfile = ''Dockerfile.metassr'', app_dir = ''metassr-app''\<rparr>"
| "FRAMEWORKS Nextjs =
     \<lparr>fw_name = ''Next.js'', port = 3001, docker_image = ''nextjs-bench'',
      dockerfile = ''Dockerfile.nextjs'', app_dir = ''nextjs-app''\<rparr>"

fun key_str :: "fw_key \<Rightarrow> string" where
  "key_str Metassr = ''metassr''"
| "key_str Nextjs = ''nextjs''"

text \<open>Decimal text of a natural number, as \<^verbatim>\<open>str\<close> and the f-strings print it.\<close>

definition digit_char :: "nat \<Rightarrow> char" where
  "digit_char d = ''0123456789'' ! d"

fun str_nat :: "nat \<Rightarrow> string" where
  "str_nat n = (if n < 10 then [digit_char n] else str_nat (n div 10) @ [digit_char (n mod 10)])"

declare str_nat.simps [simp del]

text \<open>
  Paths are texts; \<open>SCRIPT_DIR\<close>, the directory the script lies in, is written \<^verbatim>\<open>.\<close>.
\<close>

definition path_join :: "string \<Rightarrow> string \<Rightarrow> string" where
  "path_join a b = a @ ''/'' @ b"

definition SCRIPT_DIR :: string where
  "SCRIPT_DIR = ''.''"

definition PROJECT_ROOT :: string where
  "PROJECT_ROOT = SCRIPT_DIR"

definition COMPARE_DIR :: string where
  "COMPARE_DIR = path_join SCRIPT_DIR ''apps''"

section \<open>The outside world\<close>

text \<open>
  Everything the harness does to the outside world is an event of a trace, in the order it
  happens.  What the world answers is given by a \<open>world\<close>: a function from the trace so far
  and the request to the answer, so an answer may depend on everything that happened before.

  \<^item> \<open>Run cwd argv r\<close>: \<^verbatim>\<open>subprocess.run(argv, cwd=cwd, capture_output=True)\<close> (\<open>cwd\<close> empty when
    none is given); \<open>r\<close> is the exception it raised (the command could not be launched) or the
    exit status of the command.
  \<^item> \<open>Spawn cwd argv r\<close>: \<^verbatim>\<open>subprocess.Popen(argv, cwd=cwd, ...)\<close>; \<open>r\<close> is the exception raised or
    the identity of the child process.
  \<^item> \<open>Terminate p\<close>, \<open>Wait p t b\<close>, \<open>Kill p\<close>: \<^verbatim>\<open>proc.terminate()\<close>, \<^verbatim>\<open>proc.wait(timeout=t)\<close>
    (\<open>b\<close> is false when the wait ended with \<^verbatim>\<open>TimeoutExpired\<close>) and \<^verbatim>\<open>proc.kill()\<close>.
  \<^item> \<open>Sleep t\<close>: \<^verbatim>\<open>time.sleep(t)\<close>.
  \<^item> \<open>Err msg\<close>: \<^verbatim>\<open>error(msg)\<close>, a line on standard error.  The informational lines
    (\<^verbatim>\<open>log\<close>, \<^verbatim>\<open>success\<close>, \<^verbatim>\<open>print\<close>) are not recorded.

  Interrupts from outside (a signal during a call) are not modelled.

  The world also holds what \<^verbatim>\<open>get_system_info()\<close> reads (a JSON object) and the two texts
  \<^verbatim>\<open>datetime.now()\<close> is formatted to: the name of the output directory and the ISO time stamp.
\<close>

record completed =
  returncode :: int
  stdout :: string
  stderr :: string

datatype event =
    Run string "string list" "exn + int"
  | Spawn string "string list" "exn + nat"
  | Terminate nat
  | Wait nat nat bool
  | Kill nat
  | Sleep nat
  | Err string

datatype json = JStr string | JNum real | JInt int | JArr "json list" | JObj "(string \<times> json) list"

record world =
  run_result :: "event list \<Rightarrow> string \<Rightarrow> string list \<Rightarrow> exn + completed"
  popen_result :: "event list \<Rightarrow> string \<Rightarrow> string list \<Rightarrow> exn + nat"
  wait_result :: "event list \<Rightarrow> nat \<Rightarrow> nat \<Rightarrow> bool"
  path_exists :: "event list \<Rightarrow> string \<Rightarrow> bool"
  which_result :: "event list \<Rightarrow> string \<Rightarrow> bool"
  system_info :: json
  now_dirname :: string
  now_iso :: string

definition run :: "world \<Rightarrow> string \<Rightarrow> string list \<Rightarrow> event list \<Rightarrow> (exn + completed) \<times> event list" where
  "run w cwd argv tr =
     (let r = run_result w tr cwd argv
      in (r, tr @ [Run cwd argv (case r of Inl e \<Rightarrow> Inl e | Inr c \<Rightarrow> Inr (returncode c))]))"

definition popen :: "world \<Rightarrow> string \<Rightarrow> string list \<Rightarrow> event list \<Rightarrow> (exn + nat) \<times> event list" where
  "popen w cwd argv tr = (let r = popen_result w tr cwd argv in (r, tr @ [Spawn cwd argv r]))"

definition proc_wait :: "world \<Rightarrow> nat \<Rightarrow> nat \<Rightarrow> event list \<Rightarrow> bool \<times> event list" where
  "proc_wait w p t tr = (let b = wait_result w tr p t in (b, tr @ [Wait p t b]))"

definition error :: "string \<Rightarrow> event list \<Rightarrow> event list" where
  "error msg tr = tr @ [Err msg]"

definition sleep :: "nat \<Rightarrow> event list \<Rightarrow> event list" where
  "sleep t tr = tr @ [Sleep t]"


section \<open>The readiness gate\<close>

text \<open>
  \<^verbatim>\<open>wait_for(url, timeout)\<close>: the loop \<^verbatim>\<open>for _ in range(timeout)\<close> with \<open>n\<close> rounds left.  A
  round probes inside \<^verbatim>\<open>try\<close>, returns on exit status 0, swallows every exception of the
  probe (\<^verbatim>\<open>except: pass\<close>) and sleeps one second.
\<close>

definition probe_cmd :: "string \<Rightarrow> string list" where
  "probe_cmd url = [''curl'', ''-s'', ''--max-time'', ''2'', url]"

fun wait_for_loop :: "world \<Rightarrow> string \<Rightarrow> nat \<Rightarrow> event list \<Rightarrow> bool \<times> event list" where
  "wait_for_loop w url 0 tr = (False, tr)"
| "wait_for_loop w url (Suc n) tr =
     (case run w [] (probe_cmd url) tr of
        (Inr r, tr1) \<Rightarrow>
          if returncode r = 0 then (True, tr1) else wait_for_loop w url n (sleep 1 tr1)
      | (Inl e, tr1) \<Rightarrow> wait_for_loop w url n (sleep 1 tr1))"

definition wait_for :: "world \<Rightarrow> string \<Rightarrow> int \<Rightarrow> event list \<Rightarrow> bool \<times> event list" where
  "wait_for w url timeout tr = wait_for_loop w url (nat timeout) tr"


section \<open>Containers and local processes\<close>

definition lastn :: "nat \<Rightarrow> string \<Rightarrow> string" where
  "lastn n s = drop (length s - n) s"

definition build_cmd :: "framework \<Rightarrow> string list" where
  "build_cmd fw =
     [''docker'', ''build'', ''-t'', docker_image fw,
      ''-f'', path_join COMPARE_DIR (dockerfile fw), COMPARE_DIR]"

definition docker_build :: "world \<Rightarrow> fw_key \<Rightarrow> event list \<Rightarrow> (exn + bool) \<times> event list" where
  "docker_build w fw_key tr =
     (let fw = FRAMEWORKS fw_key;
          cmd = build_cmd fw
      in case run w [] cmd tr of
           (Inl e, tr1) \<Rightarrow> (Inl e, tr1)
         | (Inr r, tr1) \<Rightarrow>
             if returncode r \<noteq> 0
             then (Inr False,
                   error (''Docker build failed for '' @ fw_name fw @ '':'' @ [CHR 0x0A] @ lastn 500 (stderr r)) tr1)
             else (Inr True, tr1))"

definition container_name :: "framework \<Rightarrow> string" where
  "container_name fw = docker_image fw @ ''-run''"

definition rm_cmd :: "string \<Rightarrow> string list" where
  "rm_cmd container = [''docker'', ''rm'', ''-f'', container]"

definition run_cmd :: "framework \<Rightarrow> string list" where
  "run_cmd fw =
     [''docker'', ''run'', ''-d'', ''--name'', container_name fw,
      ''-p'', str_nat (port fw) @ '':'' @ str_nat (port fw), docker_image fw]"

text \<open>\<^verbatim>\<open>docker_start(fw)\<close> gives the container name, or \<^verbatim>\<open>None\<close> when the start failed.\<close>

definition docker_start :: "world \<Rightarrow> framework \<Rightarrow> event list \<Rightarrow> (exn + string option) \<times> event list" where
  "docker_start w fw tr =
     (let container = container_name fw
      in case run w [] (rm_cmd container) tr of
           (Inl e, tr1) \<Rightarrow> (Inl e, tr1)
         | (Inr _, tr1) \<Rightarrow>
             (case run w [] (run_cmd fw) tr1 of
                (Inl e, tr2) \<Rightarrow> (Inl e, tr2)
              | (Inr r, tr2) \<Rightarrow>
                  if returncode r \<noteq> 0
                  then (Inr None,
                        error (''Docker start failed for '' @ fw_name fw @ '':'' @ [CHR 0x0A] @ stderr r) tr2)
                  else (Inr (Some container), tr2)))"

text \<open>
  \<^verbatim>\<open>docker_stop(container)\<close>: nothing for \<^verbatim>\<open>None\<close> or an empty name (\<^verbatim>\<open>if container:\<close>),
  otherwise the removal command, whose result is dropped.  The function has no handler: an
  exception of \<^verbatim>\<open>subprocess.run\<close> leaves it.
\<close>

definition docker_stop :: "world \<Rightarrow> string option \<Rightarrow> event list \<Rightarrow> exn option \<times> event list" where
  "docker_stop w container tr =
     (case container of
        None \<Rightarrow> (None, tr)
      | Some c \<Rightarrow>
          if c = [] then (None, tr)
          else (case run w [] (rm_cmd c) tr of
                  (Inl e, tr1) \<Rightarrow> (Some e, tr1)
                | (Inr _, tr1) \<Rightarrow> (None, tr1)))"

definition npm_build :: "world \<Rightarrow> string \<Rightarrow> string \<Rightarrow> event list \<Rightarrow> (exn + bool) \<times> event list" where
  "npm_build w dir msg tr =
     (case run w dir [''npm'', ''run'', ''build''] tr of
        (Inl e, tr1) \<Rightarrow> (Inl e, tr1)
      | (Inr r, tr1) \<Rightarrow>
          if returncode r \<noteq> 0
          then (Inr False, error (msg @ [CHR 0x0A] @ lastn 300 (stderr r)) tr1)
          else (Inr True, tr1))"

text \<open>
  \<^verbatim>\<open>local_build(fw_key)\<close>.  \<open>npm_build\<close> above is the step \<^verbatim>\<open>npm run build\<close> with its check, which
  the function has in both branches.  \<^verbatim>\<open>npm\<close> and \<^verbatim>\<open>cargo\<close> are not among the dependencies the
  harness verifies at start.
\<close>

definition local_build :: "world \<Rightarrow> fw_key \<Rightarrow> event list \<Rightarrow> (exn + bool) \<times> event list" where
  "local_build w fw_key tr =
     (let fw = FRAMEWORKS fw_key; dir = path_join COMPARE_DIR (app_dir fw)
      in if \<not> path_exists w tr dir
         then (Inr False, error (''App directory not found: '' @ dir) tr)
         else
           (case run w dir [''npm'', ''install''] tr of
              (Inl e, tr1) \<Rightarrow> (Inl e, tr1)
            | (Inr r, tr1) \<Rightarrow>
                if returncode r \<noteq> 0
                then (Inr False,
                      error (''npm install failed for '' @ fw_name fw @ '':'' @ [CHR 0x0A] @ lastn 300 (stderr r)) tr1)
                else
                  (case fw_key of
                     Metassr \<Rightarrow>
                       (if \<not> which_result w tr1 ''metassr''
                        then
                          (case run w PROJECT_ROOT [''cargo'', ''build'', ''--release''] tr1 of
                             (Inl e, tr2) \<Rightarrow> (Inl e, tr2)
                           | (Inr r2, tr2) \<Rightarrow>
                               if returncode r2 \<noteq> 0
                               then (Inr False,
                                     error (''MetaSSR build failed:'' @ [CHR 0x0A] @ lastn 300 (stderr r2)) tr2)
                               else npm_build w dir ''MetaSSR app build failed:'' tr2)
                        else npm_build w dir ''MetaSSR app build failed:'' tr1)
                   | Nextjs \<Rightarrow>
                       (if \<not> path_exists w tr1 (path_join dir ''.next'')
                        then npm_build w dir ''Next.js build failed:'' tr1
                        else (Inr True, tr1)))))"

definition local_start :: "world \<Rightarrow> fw_key \<Rightarrow> event list \<Rightarrow> (exn + nat) \<times> event list" where
  "local_start w fw_key tr =
     popen w (path_join COMPARE_DIR (app_dir (FRAMEWORKS fw_key))) [''npm'', ''start''] tr"

section \<open>The scenario runner\<close>

text \<open>
  One result of \<^verbatim>\<open>run_scenarios\<close>: the dict \<^verbatim>\<open>{"name", "threads", "connections", "duration", **m}\<close>,
  with the seven keys of the metrics after the four of the scenario.
\<close>

record scenario_result =
  sc_name :: string
  threads :: nat
  connections :: nat
  duration :: nat
  measured :: metrics

definition wrk_cmd :: "scenario \<Rightarrow> string \<Rightarrow> string list" where
  "wrk_cmd sc url =
     (case sc of (name, thr, conns, dur) \<Rightarrow>
        [''wrk'', ''-t'' @ str_nat thr, ''-c'' @ str_nat conns, ''-d'' @ str_nat dur @ ''s'',
         ''--latency'', url])"

definition mk_result :: "scenario \<Rightarrow> metrics \<Rightarrow> scenario_result" where
  "mk_result sc m =
     (case sc of (name, thr, conns, dur) \<Rightarrow>
        \<lparr>sc_name = name, threads = thr, connections = conns, duration = dur, measured = m\<rparr>)"

text \<open>
  The loop of \<^verbatim>\<open>run_scenarios\<close> over the scenarios still to run, with the results so far.
  \<^verbatim>\<open>parse_wrk\<close> gets \<^verbatim>\<open>r.stdout + r.stderr\<close>; an exception of the command or of the parser
  leaves the function, and the results so far with it.
\<close>

fun run_scenarios_loop ::
  "world \<Rightarrow> string \<Rightarrow> scenario list \<Rightarrow> scenario_result list \<Rightarrow> event list
    \<Rightarrow> (exn + scenario_result list) \<times> event list" where
  "run_scenarios_loop w url [] results tr = (Inr results, tr)"
| "run_scenarios_loop w url (sc # scs) results tr =
     (case run w [] (wrk_cmd sc url) tr of
        (Inl e, tr1) \<Rightarrow> (Inl e, tr1)
      | (Inr r, tr1) \<Rightarrow>
          (case parse_wrk (stdout r @ stderr r) of
             Inl e \<Rightarrow> (Inl e, tr1)
           | Inr m \<Rightarrow> run_scenarios_loop w url scs (results @ [mk_result sc m]) tr1))"

definition run_scenarios :: "world \<Rightarrow> string \<Rightarrow> event list \<Rightarrow> (exn + scenario_result list) \<times> event list" where
  "run_scenarios w url tr = run_scenarios_loop w url SCENARIOS [] tr"


section \<open>The driver\<close>

record args =
  frameworks :: "fw_key list"
  docker :: bool
  skip_build :: bool
  output_dir :: string

text \<open>
  The variables of \<^verbatim>\<open>main\<close> that the loop over the targets and the cleanup share:
  \<^verbatim>\<open>all_results\<close> (a dict, here a list of pairs in insertion order), \<^verbatim>\<open>containers\<close> and
  \<^verbatim>\<open>processes\<close>; and the trace.
\<close>

record state =
  trace :: "event list"
  all_results :: "(fw_key \<times> scenario_result list) list"
  containers :: "string list"
  processes :: "nat list"

definition join_comma :: "string list \<Rightarrow> string" where
  "join_comma xs = (case xs of [] \<Rightarrow> [] | y # ys \<Rightarrow> y @ concat (map (\<lambda>z. '', '' @ z) ys))"

text \<open>\<^verbatim>\<open>check_deps(use_docker)\<close>: one \<^verbatim>\<open>which\<close> per dependency, and \<^verbatim>\<open>sys.exit(1)\<close> when one is missing.\<close>

fun check_missing ::
  "world \<Rightarrow> string list \<Rightarrow> string list \<Rightarrow> event list \<Rightarrow> (exn + string list) \<times> event list" where
  "check_missing w [] missing tr = (Inr missing, tr)"
| "check_missing w (dep # deps) missing tr =
     (case run w [] [''which'', dep] tr of
        (Inl e, tr1) \<Rightarrow> (Inl e, tr1)
      | (Inr r, tr1) \<Rightarrow>
          check_missing w deps (if returncode r \<noteq> 0 then missing @ [dep] else missing) tr1)"

definition check_deps :: "world \<Rightarrow> bool \<Rightarrow> event list \<Rightarrow> exn option \<times> event list" where
  "check_deps w use_docker tr =
     (case check_missing w ([''wrk'', ''curl''] @ (if use_docker then [''docker''] else [])) [] tr of
        (Inl e, tr1) \<Rightarrow> (Some e, tr1)
      | (Inr missing, tr1) \<Rightarrow>
          if missing \<noteq> []
          then (Some (SystemExit 1), error (''Missing: '' @ join_comma missing) tr1)
          else (None, tr1))"

definition url_of :: "framework \<Rightarrow> string" where
  "url_of fw = ''http://localhost:'' @ str_nat (port fw)"

text \<open>
  The first part of the loop body of \<^verbatim>\<open>main\<close>, up to the point where the target has been
  started: \<open>Inr False\<close> stands for \<^verbatim>\<open>continue\<close> (the target is skipped), \<open>Inr True\<close> for
  going on to the readiness wait.  A container is appended to \<^verbatim>\<open>containers\<close> when
  \<^verbatim>\<open>docker_start\<close> gave a name, a process to \<^verbatim>\<open>processes\<close> when \<^verbatim>\<open>local_start\<close> returned.
\<close>

definition bring_up :: "world \<Rightarrow> args \<Rightarrow> fw_key \<Rightarrow> state \<Rightarrow> (exn + bool) \<times> state" where
  "bring_up w a fw_key s =
     (let fw = FRAMEWORKS fw_key; url = url_of fw
      in if docker a
         then
           (case docker_build w fw_key (trace s) of
              (Inl e, tr1) \<Rightarrow> (Inl e, s\<lparr>trace := tr1\<rparr>)
            | (Inr built, tr1) \<Rightarrow>
                if \<not> built
                then (Inr False, s\<lparr>trace := error (''Skipping '' @ fw_name fw) tr1\<rparr>)
                else
                  (case docker_start w fw tr1 of
                     (Inl e, tr2) \<Rightarrow> (Inl e, s\<lparr>trace := tr2\<rparr>)
                   | (Inr None, tr2) \<Rightarrow>
                       (Inr False, s\<lparr>trace := error (''Skipping '' @ fw_name fw) tr2\<rparr>)
                   | (Inr (Some container), tr2) \<Rightarrow>
                       if container = []
                       then (Inr False, s\<lparr>trace := error (''Skipping '' @ fw_name fw) tr2\<rparr>)
                       else (Inr True, s\<lparr>trace := tr2, containers := containers s @ [container]\<rparr>)))
         else
           (case wait_for w url 2 (trace s) of
              (True, tr1) \<Rightarrow> (Inr True, s\<lparr>trace := tr1\<rparr>)
            | (False, tr1) \<Rightarrow>
                (case (if \<not> skip_build a then local_build w fw_key tr1 else (Inr True, tr1)) of
                   (Inl e, tr2) \<Rightarrow> (Inl e, s\<lparr>trace := tr2\<rparr>)
                 | (Inr built, tr2) \<Rightarrow>
                     if \<not> built
                     then (Inr False, s\<lparr>trace := error (''Skipping '' @ fw_name fw) tr2\<rparr>)
                     else
                       (case local_start w fw_key tr2 of
                          (Inl e, tr3) \<Rightarrow> (Inl e, s\<lparr>trace := tr3\<rparr>)
                        | (Inr proc, tr3) \<Rightarrow>
                            (Inr True, s\<lparr>trace := tr3, processes := processes s @ [proc]\<rparr>)))))"

text \<open>The warm-up: \<open>n\<close> more of the ten requests \<^verbatim>\<open>curl -s url\<close>.\<close>

fun warm_up :: "world \<Rightarrow> string \<Rightarrow> nat \<Rightarrow> event list \<Rightarrow> exn option \<times> event list" where
  "warm_up w url 0 tr = (None, tr)"
| "warm_up w url (Suc n) tr =
     (case run w [] [''curl'', ''-s'', url] tr of
        (Inl e, tr1) \<Rightarrow> (Some e, tr1)
      | (Inr _, tr1) \<Rightarrow> warm_up w url n tr1)"

text \<open>
  The rest of the loop body: the readiness wait, the warm-up, the scenarios and the assignment
  \<^verbatim>\<open>all_results[fw_key] = run_scenarios(url)\<close>.  An assignment to a key the dict already has
  keeps the key's place, as \<open>AList.update\<close> does.
\<close>

definition measure_target :: "world \<Rightarrow> fw_key \<Rightarrow> state \<Rightarrow> exn option \<times> state" where
  "measure_target w fw_key s =
     (let fw = FRAMEWORKS fw_key; url = url_of fw
      in case wait_for w url 60 (trace s) of
           (False, tr1) \<Rightarrow>
             (None, s\<lparr>trace := error (fw_name fw @ '' did not start, skipping'') tr1\<rparr>)
         | (True, tr1) \<Rightarrow>
             (case warm_up w url 10 tr1 of
                (Some e, tr2) \<Rightarrow> (Some e, s\<lparr>trace := tr2\<rparr>)
              | (None, tr2) \<Rightarrow>
                  (case run_scenarios w url (sleep 2 tr2) of
                     (Inl e, tr3) \<Rightarrow> (Some e, s\<lparr>trace := tr3\<rparr>)
                   | (Inr results, tr3) \<Rightarrow>
                       (None, s\<lparr>trace := tr3,
                                 all_results := AList.update fw_key results (all_results s)\<rparr>))))"

definition process_target :: "world \<Rightarrow> args \<Rightarrow> fw_key \<Rightarrow> state \<Rightarrow> exn option \<times> state" where
  "process_target w a fw_key s =
     (case bring_up w a fw_key s of
        (Inl e, s1) \<Rightarrow> (Some e, s1)
      | (Inr False, s1) \<Rightarrow> (None, s1)
      | (Inr True, s1) \<Rightarrow> measure_target w fw_key s1)"

text \<open>The loop \<^verbatim>\<open>for fw_key in args.frameworks\<close>; an exception ends it.\<close>

fun main_loop :: "world \<Rightarrow> args \<Rightarrow> fw_key list \<Rightarrow> state \<Rightarrow> exn option \<times> state" where
  "main_loop w a [] s = (None, s)"
| "main_loop w a (fw_key # rest) s =
     (case process_target w a fw_key s of
        (Some e, s1) \<Rightarrow> (Some e, s1)
      | (None, s1) \<Rightarrow> main_loop w a rest s1)"

text \<open>
  The \<^verbatim>\<open>finally\<close> block: the containers first, then the processes.  \<open>stop_process\<close> is the body of
  the second loop: \<^verbatim>\<open>terminate\<close>, \<^verbatim>\<open>wait(timeout=5)\<close>, and \<^verbatim>\<open>kill\<close> when the wait timed out.  The
  block has no handler but the one for \<^verbatim>\<open>TimeoutExpired\<close>: an exception of \<^verbatim>\<open>docker_stop\<close> ends it.
\<close>

fun stop_containers :: "world \<Rightarrow> string list \<Rightarrow> event list \<Rightarrow> exn option \<times> event list" where
  "stop_containers w [] tr = (None, tr)"
| "stop_containers w (container # rest) tr =
     (case docker_stop w (Some container) tr of
        (Some e, tr1) \<Rightarrow> (Some e, tr1)
      | (None, tr1) \<Rightarrow> stop_containers w rest tr1)"

definition stop_process :: "world \<Rightarrow> nat \<Rightarrow> event list \<Rightarrow> event list" where
  "stop_process w proc tr =
     (case proc_wait w proc 5 (tr @ [Terminate proc]) of
        (True, tr1) \<Rightarrow> tr1
      | (False, tr1) \<Rightarrow> tr1 @ [Kill proc])"

fun stop_processes :: "world \<Rightarrow> nat list \<Rightarrow> event list \<Rightarrow> event list" where
  "stop_processes w [] tr = tr"
| "stop_processes w (proc # rest) tr = stop_processes w rest (stop_process w proc tr)"

definition cleanup :: "world \<Rightarrow> state \<Rightarrow> exn option \<times> state" where
  "cleanup w s =
     (case stop_containers w (containers s) (trace s) of
        (Some e, tr1) \<Rightarrow> (Some e, s\<lparr>trace := tr1\<rparr>)
      | (None, tr1) \<Rightarrow> (None, s\<lparr>trace := stop_processes w (processes s) tr1\<rparr>))"


section \<open>The report\<close>

text \<open>
  \<^verbatim>\<open>xs[i]\<close> on a list raises IndexError out of range (the indices used here are never negative).
\<close>

definition py_index :: "'a list \<Rightarrow> nat \<Rightarrow> exn + 'a" where
  "py_index xs i = (if i < length xs then Inr (xs ! i) else Inl IndexError)"

text \<open>
  One row of the head-to-head table: the three differences and the winner, as the loop body
  of \<^verbatim>\<open>generate_report\<close> computes them from the reference's result \<open>m\<close> and the other
  target's result \<open>ot\<close> (\<^verbatim>\<open>o\<close> in the source).
\<close>

record h2h_row =
  scenario :: string
  rps_d :: real
  lat_d :: real
  p99_d :: real
  rps_winner :: string

definition compare_row :: "string \<Rightarrow> string \<Rightarrow> scenario_result \<Rightarrow> scenario_result \<Rightarrow> h2h_row" where
  "compare_row sname other_name m ot =
     \<lparr>scenario = sname,
      rps_d = pct_diff (rps (measured m)) (rps (measured ot)),
      lat_d = pct_diff (latency_ms (measured m)) (latency_ms (measured ot)),
      p99_d = pct_diff (p99_ms (measured m)) (p99_ms (measured ot)),
      rps_winner = (if rps (measured m) \<ge> rps (measured ot) then ''MetaSSR'' else other_name)\<rparr>"





text \<open>
  The inner loop \<^verbatim>\<open>for i, (sname, _, _, _) in enumerate(SCENARIOS)\<close>, from index \<open>i\<close> on, over
  the reference's list and the other target's list.
\<close>

fun h2h_rows ::
  "string \<Rightarrow> scenario list \<Rightarrow> nat \<Rightarrow> scenario_result list \<Rightarrow> scenario_result list
    \<Rightarrow> exn + h2h_row list" where
  "h2h_rows other_name [] i metassr_data other_data = Inr []"
| "h2h_rows other_name (sc # scs) i metassr_data other_data =
     and_then (py_index metassr_data i) (\<lambda>m.
     and_then (py_index other_data i) (\<lambda>ot.
     and_then (h2h_rows other_name scs (Suc i) metassr_data other_data) (\<lambda>rows.
     Inr (compare_row (fst sc) other_name m ot # rows))))"

text \<open>
  The outer loop over the targets of \<^verbatim>\<open>all_results\<close> in insertion order (its keys are
  distinct, so the list of a pair is \<^verbatim>\<open>all_results[fw_key]\<close>); the reference is skipped.
\<close>

fun h2h_sections ::
  "scenario_result list \<Rightarrow> (fw_key \<times> scenario_result list) list
    \<Rightarrow> exn + (fw_key \<times> h2h_row list) list" where
  "h2h_sections metassr_data [] = Inr []"
| "h2h_sections metassr_data ((fw_key, other_data) # rest) =
     (if fw_key = Metassr then h2h_sections metassr_data rest
      else
        and_then (h2h_rows (fw_name (FRAMEWORKS fw_key)) SCENARIOS 0 metassr_data other_data) (\<lambda>rows.
        and_then (h2h_sections metassr_data rest) (\<lambda>secs.
        Inr ((fw_key, rows) # secs))))"

definition head_to_head ::
  "(fw_key \<times> scenario_result list) list \<Rightarrow> exn + (fw_key \<times> h2h_row list) list" where
  "head_to_head results =
     (case map_of results Metassr of
        Some metassr_data \<Rightarrow>
          if length results > 1 then h2h_sections metassr_data results else Inr []
      | None \<Rightarrow> Inr [])"

text \<open>The snapshot \<^verbatim>\<open>report.json\<close>: the dict that \<^verbatim>\<open>json.dumps\<close> gets, keys in order.\<close>

definition result_json :: "scenario_result \<Rightarrow> json" where
  "result_json r =
     JObj [(''name'', JStr (sc_name r)),
           (''threads'', JInt (int (threads r))),
           (''connections'', JInt (int (connections r))),
           (''duration'', JInt (int (duration r))),
           (''rps'', JNum (rps (measured r))),
           (''latency'', JStr (latency (measured r))),
           (''latency_ms'', JNum (latency_ms (measured r))),
           (''p99'', JStr (p99 (measured r))),
           (''p99_ms'', JNum (p99_ms (measured r))),
           (''requests'', JInt (requests (measured r))),
           (''errors'', JInt (errors (measured r)))]"

definition snapshot :: "world \<Rightarrow> bool \<Rightarrow> (fw_key \<times> scenario_result list) list \<Rightarrow> json" where
  "snapshot w use_docker results =
     JObj [(''timestamp'', JStr (now_iso w)),
           (''system'', system_info w),
           (''mode'', JStr (if use_docker then ''docker'' else ''local'')),
           (''frameworks'', JObj (map (\<lambda>(k, rs). (key_str k, JArr (map result_json rs))) results))]"

text \<open>
  What \<^verbatim>\<open>generate_report\<close> leaves behind: the directory it creates under the output
  directory, named by the time, and in it \<^verbatim>\<open>report.md\<close> and \<^verbatim>\<open>report.json\<close>.  Of the markdown
  text the model keeps the head-to-head tables.  The chart and table sections before them
  read \<^verbatim>\<open>all_results[fw_key][s_idx]\<close> for every target and every scenario index: that is the
  IndexError below; their text is not modelled.
\<close>

record outputs =
  out_dir :: string
  h2h :: "(fw_key \<times> h2h_row list) list"
  report_json :: json

definition generate_report ::
  "world \<Rightarrow> (fw_key \<times> scenario_result list) list \<Rightarrow> string \<Rightarrow> bool \<Rightarrow> exn + outputs" where
  "generate_report w results dir use_docker =
     (if list_ex (\<lambda>(k, rs). length rs < length SCENARIOS) results then Inl IndexError
      else
        and_then (head_to_head results) (\<lambda>secs.
          Inr \<lparr>out_dir = path_join dir (now_dirname w), h2h = secs,
               report_json = snapshot w use_docker results\<rparr>))"

section \<open>\<^verbatim>\<open>main\<close>\<close>

text \<open>
  \<open>main_try\<close> is \<^verbatim>\<open>main\<close> up to the end of the \<^verbatim>\<open>try\<close> block, \<open>main\<close> the whole function: the
  \<^verbatim>\<open>finally\<close> block runs however the \<^verbatim>\<open>try\<close> block ended, an exception of the \<^verbatim>\<open>finally\<close> block
  replaces the one of the \<^verbatim>\<open>try\<close> block, and without results the run exits with status 1.
  When \<^verbatim>\<open>check_deps\<close> exits, \<^verbatim>\<open>main\<close> has not reached the \<^verbatim>\<open>try\<close> statement.
\<close>

definition state0 :: "event list \<Rightarrow> state" where
  "state0 tr = \<lparr>trace = tr, all_results = [], containers = [], processes = []\<rparr>"

definition main_try :: "world \<Rightarrow> args \<Rightarrow> event list \<Rightarrow> exn option \<times> state" where
  "main_try w a tr = main_loop w a (frameworks a) (state0 tr)"

definition main :: "world \<Rightarrow> args \<Rightarrow> (exn + outputs) \<times> state" where
  "main w a =
     (case check_deps w (docker a) [] of
        (Some e, tr0) \<Rightarrow> (Inl e, state0 tr0)
      | (None, tr0) \<Rightarrow>
          (case main_try w a tr0 of
             (r1, s1) \<Rightarrow>
               (case cleanup w s1 of
                  (Some e, s2) \<Rightarrow> (Inl e, s2)
                | (None, s2) \<Rightarrow>
                    (case r1 of
                       Some e \<Rightarrow> (Inl e, s2)
                     | None \<Rightarrow>
                         if all_results s2 = []
                         then (Inl (SystemExit 1),
                               s2\<lparr>trace := error ''No benchmark results collected'' (trace s2)\<rparr>)
                         else (generate_report w (all_results s2)
                                 (path_join PROJECT_ROOT (output_dir a)) (docker a), s2)))))"

section \<open>Reading a trace\<close>

text \<open>
  What a trace says about containers and processes.  A container is started by a
  \<^verbatim>\<open>docker run -d --name c ...\<close> that exits with status 0, and it is gone after a
  \<^verbatim>\<open>docker rm -f c\<close> that was launched (the forced removal leaves no container of that name,
  whether there was one or not).  A process is there from its \<^verbatim>\<open>Popen\<close> on; it is gone when a
  wait for it returned in time or when it was killed.
\<close>

datatype effect = Started string | Removed string | Spawned nat | Ended nat

fun effect_of :: "event \<Rightarrow> effect option" where
  "effect_of (Run cwd argv r) =
     (case argv of
        [a0, a1, a2, c] \<Rightarrow>
          if a0 = ''docker'' \<and> a1 = ''rm'' \<and> a2 = ''-f'' \<and> \<not> isl r then Some (Removed c) else None
      | a0 # a1 # a2 # a3 # c # rest \<Rightarrow>
          if a0 = ''docker'' \<and> a1 = ''run'' \<and> a2 = ''-d'' \<and> a3 = ''--name'' \<and> r = Inr 0
          then Some (Started c) else None
      | _ \<Rightarrow> None)"
| "effect_of (Spawn cwd argv r) = (case r of Inr p \<Rightarrow> Some (Spawned p) | Inl e \<Rightarrow> None)"
| "effect_of (Wait p t b) = (if b then Some (Ended p) else None)"
| "effect_of (Kill p) = Some (Ended p)"
| "effect_of (Terminate p) = None"
| "effect_of (Sleep t) = None"
| "effect_of (Err msg) = None"

definition effects :: "event list \<Rightarrow> effect list" where
  "effects tr = List.map_filter effect_of tr"

definition started_containers :: "event list \<Rightarrow> string list" where
  "started_containers tr =
     List.map_filter (\<lambda>e. case e of Started c \<Rightarrow> Some c | _ \<Rightarrow> None) (effects tr)"

definition spawned_processes :: "event list \<Rightarrow> nat list" where
  "spawned_processes tr =
     List.map_filter (\<lambda>e. case e of Spawned p \<Rightarrow> Some p | _ \<Rightarrow> None) (effects tr)"

definition live_step :: "string set \<Rightarrow> effect \<Rightarrow> string set" where
  "live_step L e = (case e of Started c \<Rightarrow> insert c L | Removed c \<Rightarrow> L - {c} | _ \<Rightarrow> L)"

definition live_containers :: "event list \<Rightarrow> string set" where
  "live_containers tr = foldl live_step {} (effects tr)"

definition proc_step :: "nat set \<Rightarrow> effect \<Rightarrow> nat set" where
  "proc_step L e = (case e of Spawned p \<Rightarrow> insert p L | Ended p \<Rightarrow> L - {p} | _ \<Rightarrow> L)"

definition live_processes :: "event list \<Rightarrow> nat set" where
  "live_processes tr = foldl proc_step {} (effects tr)"





text \<open>The fields of a JSON object, in order.\<close>

fun json_fields :: "json \<Rightarrow> (string \<times> json) list" where
  "json_fields (JObj fs) = fs"
| "json_fields _ = []"


text \<open>
  Two shorthands for statements about traces: \<open>tr'\<close> continues \<open>tr\<close> by events without effect;
  and the effects the processing of one target with container name \<open>c\<close> can have.
\<close>

definition extends_quietly :: "event list \<Rightarrow> event list \<Rightarrow> bool" where
  "extends_quietly tr tr' = (\<exists>evs. tr' = tr @ evs \<and> effects evs = [])"

definition target_effects :: "string \<Rightarrow> effect list \<Rightarrow> bool" where
  "target_effects c es =
     (es = [] \<or> es = [Removed c] \<or> es = [Removed c, Started c] \<or> (\<exists>p. es = [Spawned p]))"




section \<open>Two worlds to run the harness in\<close>

text \<open>
  In \<open>demo_world False\<close> every command can be launched and exits with status 0 and no output
  (so every probe succeeds at once and every measurement gives the default metrics).
  \<open>demo_world True\<close> differs in one point: a \<^verbatim>\<open>docker rm\<close> that comes right after a run of the
  load generator cannot be launched (OSError); that is the first removal of the cleanup, not
  the removal of a stale container before a start.
\<close>

definition ok_run :: completed where
  "ok_run = \<lparr>returncode = 0, stdout = [], stderr = []\<rparr>"

definition is_wrk :: "string list \<Rightarrow> bool" where
  "is_wrk argv = (case argv of a0 # rest \<Rightarrow> a0 = ''wrk'' | [] \<Rightarrow> False)"

definition is_rm :: "string list \<Rightarrow> bool" where
  "is_rm argv = (case argv of a0 # a1 # rest \<Rightarrow> a0 = ''docker'' \<and> a1 = ''rm'' | _ \<Rightarrow> False)"

definition after_wrk :: "event list \<Rightarrow> bool" where
  "after_wrk tr = (case rev tr of Run cwd argv r # before \<Rightarrow> is_wrk argv | _ \<Rightarrow> False)"

definition demo_world :: "bool \<Rightarrow> world" where
  "demo_world removal_fails =
     \<lparr>run_result = (\<lambda>tr cwd argv.
        if removal_fails \<and> is_rm argv \<and> after_wrk tr
        then Inl OSError else Inr ok_run),
      popen_result = (\<lambda>tr cwd argv. Inr (length tr)),
      wait_result = (\<lambda>tr p t. True),
      path_exists = (\<lambda>tr p. True),
      which_result = (\<lambda>tr p. True),
      system_info = JObj [(''os'', JStr ''Linux'')],
      now_dirname = ''2025-01-01-00-00-00'',
      now_iso = ''2025-01-01T00:00:00''\<rparr>"

definition demo_args :: args where
  "demo_args =
     \<lparr>frameworks = [Metassr, Nextjs], docker = True, skip_build = False, output_dir = ''.bench/apps''\<rparr>"

text \<open>The events of the dependency check and of one target in these worlds.\<close>

definition demo_deps_events :: "event list" where
  "demo_deps_events =
     [Run [] [''which'', ''wrk''] (Inr 0), Run [] [''which'', ''curl''] (Inr 0),
      Run [] [''which'', ''docker''] (Inr 0)]"

definition demo_start_events :: "fw_key \<Rightarrow> event list" where
  "demo_start_events k =
     [Run [] (build_cmd (FRAMEWORKS k)) (Inr 0),
      Run [] (rm_cmd (container_name (FRAMEWORKS k))) (Inr 0),
      Run [] (run_cmd (FRAMEWORKS k)) (Inr 0)]"

definition demo_measure_events :: "fw_key \<Rightarrow> event list" where
  "demo_measure_events k =
     Run [] (probe_cmd (url_of (FRAMEWORKS k))) (Inr 0)
       # replicate 10 (Run [] [''curl'', ''-s'', url_of (FRAMEWORKS k)] (Inr 0))
       @ Sleep 2
       # map (\<lambda>sc. Run [] (wrk_cmd sc (url_of (FRAMEWORKS k))) (Inr 0)) SCENARIOS"

definition demo_results :: "scenario_result list" where
  "demo_results = map (\<lambda>sc. mk_result sc metrics0) SCENARIOS"



definition demo_loop_events :: "event list" where
  "demo_loop_events =
     demo_start_events Metassr @ demo_measure_events Metassr
       @ demo_start_events Nextjs @ demo_measure_events Nextjs"

definition demo_cleanup_events :: "event list" where
  "demo_cleanup_events =
     [Run [] (rm_cmd ''metassr-bench-run'') (Inr 0), Run [] (rm_cmd ''nextjs-bench-run'') (Inr 0)]"

definition demo_state :: "event list \<Rightarrow> state" where
  "demo_state tr =
     \<lparr>trace = tr,
      all_results = [(Metassr, demo_results), (Nextjs, demo_results)],
      containers = [''metassr-bench-run'', ''nextjs-bench-run''],
      processes = []\<rparr>"


section \<open>Facts about the matcher\<close>

lemma first_some_all_None: "(\<And>x. x \<in> set xs \<Longrightarrow> f x = None) \<Longrightarrow> first_some f xs = None"
  by (induction xs) auto

lemma first_some_skip:
  "(\<And>x. x \<in> set xs \<Longrightarrow> f x = None) \<Longrightarrow> f y = Some v \<Longrightarrow> first_some f (xs @ y # ys) = Some v"
  by (induction xs) auto

lemma take_takeWhile_length: "take (length (takeWhile p s)) s = takeWhile p s"
  by (induction s) auto

lemma rx_match_Lit_None: "take (length l) s \<noteq> l \<Longrightarrow> rx_match (Lit l # its) s = None"
  by simp

lemma rx_match_Lit_Some:
  "rx_match its s = Some m \<Longrightarrow> rx_match (Lit l # its) (l @ s) = Some (l # m)"
  by simp

lemma rx_match_Plus_longest:
  assumes "takeWhile p s = a" "a \<noteq> []" "rx_match its (drop (length a) s) = Some m"
  shows "rx_match (Plus p # its) s = Some (a # m)"
proof -
  have n: "0 < length a" using assms(2) by simp
  have tk: "take (length a) s = a"
    using assms(1) take_takeWhile_length [of p s] by simp
  show ?thesis
    using assms(3) n tk by (simp add: assms(1) Suc_le_eq)
qed

lemma rx_match_Plus_empty_run: "takeWhile p s = [] \<Longrightarrow> rx_match (Plus p # its) s = None"
  by simp

lemma upt_split_at: "n \<le> L \<Longrightarrow> [0 ..< Suc L] = [0 ..< n] @ n # [Suc n ..< Suc L]"
proof -
  assume le: "n \<le> L"
  have "[0 ..< n + Suc (L - n)] = [0 ..< n] @ [n ..< n + Suc (L - n)]"
    by (rule upt_add_eq_append) simp
  moreover have "[n ..< n + Suc (L - n)] = n # [Suc n ..< n + Suc (L - n)]"
    by (rule upt_conv_Cons) simp
  ultimately show ?thesis using le by simp
qed

lemma rx_match_LazyStar_at:
  assumes "\<And>k. k < n \<Longrightarrow> rx_match its (drop k s) = None"
    and "n \<le> length (takeWhile p s)"
    and "rx_match its (drop n s) = Some m"
  shows "rx_match (LazyStar p # its) s = Some (take n s # m)"
proof -
  let ?L = "length (takeWhile p s)"
  let ?f = "\<lambda>k. map_option ((#) (take k s)) (rx_match its (drop k s))"
  have split: "[0 ..< Suc ?L] = [0 ..< n] @ n # [Suc n ..< Suc ?L]"
    using assms(2) by (rule upt_split_at)
  have "first_some ?f ([0 ..< n] @ n # [Suc n ..< Suc ?L]) = Some (take n s # m)"
    by (rule first_some_skip) (use assms(1,3) in auto)
  then show ?thesis by (simp only: rx_match.simps item.case split)
qed

lemma re_search_at:
  assumes "\<And>i. i < n \<Longrightarrow> rx_match its (drop i s) = None"
    and "n \<le> length s"
    and "rx_match its (drop n s) = Some m"
  shows "re_search its s = Some m"
proof -
  have split: "[0 ..< Suc (length s)] = [0 ..< n] @ n # [Suc n ..< Suc (length s)]"
    using assms(2) by (rule upt_split_at)
  have "first_some (\<lambda>i. rx_match its (drop i s)) ([0 ..< n] @ n # [Suc n ..< Suc (length s)]) = Some m"
    by (rule first_some_skip) (use assms(1,3) in auto)
  then show ?thesis by (simp only: re_search_def split)
qed


lemma digit_is_word: "is_digit c \<Longrightarrow> is_word c"
  by (auto simp: is_digit_def is_word_def Let_def)

lemma dot_not_word: "\<not> is_word (CHR ''.'')"
  by (simp add: is_word_def)

lemma digit_is_any: "is_digit c \<Longrightarrow> is_any c"
  by (auto simp: is_digit_def is_any_def)

lemma rx_match_Plus_whole:
  assumes "s \<noteq> []" "list_all p s"
  shows "rx_match [Plus p] s = Some [s]"
proof -
  have "takeWhile p s = s" using assms(2) by (simp add: list_all_iff)
  then show ?thesis
    using rx_match_Plus_longest [of p s s "[]" "[]"] assms(1) by simp
qed

lemma rx_match_value_unit:
  assumes "num \<noteq> []" "list_all is_digit_or_dot num"
    and "u \<noteq> []" "list_all is_word u" "\<not> is_digit (hd u)"
  shows "rx_match RX_VALUE_UNIT (num @ u) = Some [num, u]"
proof -
  have "is_word (hd u)" using assms(3,4) by (cases u) auto
  then have "\<not> is_digit_or_dot (hd u)"
    using assms(5) dot_not_word by (auto simp: is_digit_or_dot_def)
  then have "takeWhile is_digit_or_dot u = []"
    by (simp add: takeWhile_eq_Nil_iff)
  then have tw: "takeWhile is_digit_or_dot (num @ u) = num"
    using assms(2) by (simp add: list_all_iff)
  have rest: "rx_match [Plus is_word] (drop (length num) (num @ u)) = Some [u]"
    using rx_match_Plus_whole [OF assms(3,4)] by simp
  show ?thesis
    unfolding RX_VALUE_UNIT_def
    by (rule rx_match_Plus_longest [OF tw assms(1) rest])
qed


lemma rx_match_lazy_then_digits:
  assumes "list_all (\<lambda>c. \<not> is_digit c \<and> is_any c) mid"
    and "ds \<noteq> []" "list_all is_digit ds"
    and "rest = [] \<or> \<not> is_digit (hd rest)"
  shows "rx_match [LazyStar is_any, Plus is_digit] (mid @ ds @ rest) = Some [mid, ds]"
proof -
  let ?t = "mid @ ds @ rest"
  have tw_rest: "takeWhile is_digit rest = []"
    using assms(4) by (auto simp: takeWhile_eq_Nil_iff)
  have tw_ds: "takeWhile is_digit (ds @ rest) = ds"
    using assms(3) tw_rest by (simp add: list_all_iff)
  have digits: "rx_match [Plus is_digit] (ds @ rest) = Some [ds]"
    by (rule rx_match_Plus_longest [OF tw_ds assms(2)]) simp
  have early: "rx_match [Plus is_digit] (drop k ?t) = None" if "k < length mid" for k
  proof -
    have "drop k ?t = drop k mid @ ds @ rest" using that by simp
    moreover have "drop k mid = mid ! k # drop (Suc k) mid"
      using that by (simp add: Cons_nth_drop_Suc)
    moreover have "\<not> is_digit (mid ! k)"
      using assms(1) that by (simp add: list_all_length)
    ultimately have "takeWhile is_digit (drop k ?t) = []" by simp
    then show ?thesis by (rule rx_match_Plus_empty_run)
  qed
  have "takeWhile is_any ?t = mid @ takeWhile is_any (ds @ rest)"
    using assms(1) by (simp add: list_all_iff)
  then have run: "length mid \<le> length (takeWhile is_any ?t)" by simp
  have at: "rx_match [Plus is_digit] (drop (length mid) ?t) = Some [ds]"
    using digits by simp
  have "rx_match [LazyStar is_any, Plus is_digit] ?t = Some (take (length mid) ?t # [ds])"
    by (rule rx_match_LazyStar_at [OF early run at])
  then show ?thesis by simp
qed

lemma re_search_Lit_first:
  assumes "\<And>i. i < length pre \<Longrightarrow> take (length l) (drop i (pre @ l @ t)) \<noteq> l"
    and "rx_match its t = Some m"
  shows "re_search (Lit l # its) (pre @ l @ t) = Some (l # m)"
proof (rule re_search_at [where n = "length pre"])
  fix i assume "i < length pre"
  then have "take (length l) (drop i (pre @ l @ t)) \<noteq> l" by (rule assms(1))
  then show "rx_match (Lit l # its) (drop i (pre @ l @ t)) = None"
    by (rule rx_match_Lit_None)
next
  show "length pre \<le> length (pre @ l @ t)" by simp
next
  show "rx_match (Lit l # its) (drop (length pre) (pre @ l @ t)) = Some (l # m)"
    using rx_match_Lit_Some [OF assms(2), of l] by simp
qed

section \<open>The metric extractor: what it returns\<close>

lemma parse_wrk_output_eq: "parse_wrk_output output = parse_wrk output"
proof -
  have eq: "parse_latency_ms_bench t = parse_latency_ms t" for t
    by (simp add: parse_latency_ms_bench_def parse_latency_ms_def)
  show ?thesis
    unfolding parse_wrk_output_def parse_wrk_def set_rps_def set_latency_def set_p99_def
      set_requests_def set_errors_def Let_def eq
    by (simp cong: option.case_cong)
qed

lemma and_then_Inr_iff: "and_then x f = Inr y \<longleftrightarrow> (\<exists>v. x = Inr v \<and> f v = Inr y)"
  by (cases x) (simp_all add: and_then_def)

text \<open>
  A field whose pattern is not found keeps its default, whatever the other patterns find:
  each step changes its own fields only.
\<close>

lemma parse_wrk_fields:
  assumes "parse_wrk output = Inr r"
  shows "rps r = rps (projr (set_rps output metrics0))"
    and "latency r = latency (projr (set_latency output metrics0))"
    and "latency_ms r = latency_ms (projr (set_latency output metrics0))"
    and "p99 r = p99 (projr (set_p99 output metrics0))"
    and "p99_ms r = p99_ms (projr (set_p99 output metrics0))"
    and "requests r = requests (set_requests output metrics0)"
    and "errors r = errors (set_errors output metrics0)"
  using assms
  by (auto simp: parse_wrk_def and_then_def set_rps_def set_latency_def set_p99_def
      set_errors_def set_requests_def split: sum.splits option.splits)

lemma parse_wrk_defaults:
  assumes "parse_wrk output = Inr r"
  shows "re_search RX_RPS output = None \<Longrightarrow> rps r = 0"
    and "re_search RX_LATENCY output = None \<Longrightarrow> latency r = ''0ms'' \<and> latency_ms r = 0"
    and "re_search RX_P99 output = None \<Longrightarrow> p99 r = ''0ms'' \<and> p99_ms r = 0"
    and "re_search RX_REQUESTS output = None \<Longrightarrow> requests r = 0"
    and "re_search RX_ERRORS output = None \<Longrightarrow> errors r = 0"
  using parse_wrk_fields [OF assms]
  by (simp_all add: set_rps_def set_latency_def set_p99_def set_requests_def set_errors_def
      metrics0_def)

lemma parse_wrk_nothing_found:
  assumes "re_search RX_RPS output = None" "re_search RX_LATENCY output = None"
    and "re_search RX_P99 output = None" "re_search RX_REQUESTS output = None"
    and "re_search RX_ERRORS output = None"
  shows "parse_wrk output = Inr metrics0"
  using assms
  by (simp add: parse_wrk_def and_then_def set_rps_def set_latency_def set_p99_def
      set_requests_def set_errors_def)

text \<open>
  C3.  The extractor is to return a record for every input text and never to raise.  It
  does not: a text in which the number after \<^verbatim>\<open>Requests/sec:\<close> has two dots is matched by
  \<^verbatim>\<open>[\d.]+\<close> and handed to \<^verbatim>\<open>float\<close>, which raises ValueError; the same holds for the number of
  a latency.  (Where no conversion fails, \<open>parse_wrk_defaults\<close> above gives the defaults of
  the fields that were not found.)
\<close>

theorem parse_wrk_raises_on_malformed_number:
  "parse_wrk ''Requests/sec: 1.2.3'' = Inl ValueError
   \<and> parse_wrk ''Latency 1.2.3ms'' = Inl ValueError
   \<and> parse_wrk_output ''Requests/sec: 1.2.3'' = Inl ValueError"
  by code_simp

text \<open>
  C7.  A latency text that is a decimal number followed by a unit word (a run of word
  characters that does not start with a digit) is normalised to milliseconds by its unit,
  compared in lower case: \<^verbatim>\<open>us\<close> divides the number by 1000, \<^verbatim>\<open>ms\<close> keeps it, \<^verbatim>\<open>s\<close> multiplies it
  by 1000, and every other unit keeps it.  Both copies of the function do so.
\<close>

theorem parse_latency_ms_units:
  assumes "is_decimal num" "u \<noteq> []" "list_all is_word u" "\<not> is_digit (hd u)"
  shows "parse_latency_ms (num @ u) =
           Inr (if lower u = ''us'' then decimal_value num / 1000
                else if lower u = ''ms'' then decimal_value num
                else if lower u = ''s'' then decimal_value num * 1000
                else decimal_value num)
         \<and> parse_latency_ms_bench (num @ u) = parse_latency_ms (num @ u)"
proof -
  have ne: "num \<noteq> []" using assms(1) by (auto simp: is_decimal_def)
  have dd: "list_all is_digit_or_dot num" using assms(1) by (simp add: is_decimal_def)
  have m: "re_match RX_VALUE_UNIT (num @ u) = Some [num, u]"
    unfolding re_match_def by (rule rx_match_value_unit [OF ne dd assms(2,3,4)])
  have f: "py_float num = Inr (decimal_value num)"
    using assms(1) by (simp add: py_float_def)
  have "parse_latency_ms (num @ u) =
           Inr (if lower u = ''us'' then decimal_value num / 1000
                else if lower u = ''ms'' then decimal_value num
                else if lower u = ''s'' then decimal_value num * 1000
                else decimal_value num)"
    using ne by (simp add: parse_latency_ms_def m group_text_def f and_then_def Let_def)
  moreover have "parse_latency_ms_bench (num @ u) = parse_latency_ms (num @ u)"
    by (simp add: parse_latency_ms_bench_def parse_latency_ms_def)
  ultimately show ?thesis by simp
qed

lemmas char_class_defs =
  is_decimal_def is_digit_or_dot_def is_digit_def is_word_def is_any_def lower_def lower_char_def
  decimal_value_def int_part_def frac_part_def nat_of_digits_def digit_val_def

theorem parse_latency_ms_units_witness:
  "parse_latency_ms ''250us'' = Inr (1 / 4)
   \<and> parse_latency_ms ''1.5s'' = Inr 1500
   \<and> parse_latency_ms ''12ms'' = Inr 12
   \<and> parse_latency_ms ''7min'' = Inr 7
   \<and> parse_latency_ms_bench ''250us'' = Inr (1 / 4)"
  using parse_latency_ms_units [of "''250''" "''us''"]
    parse_latency_ms_units [of "''1.5''" "''s''"]
    parse_latency_ms_units [of "''12''" "''ms''"]
    parse_latency_ms_units [of "''7''" "''min''"]
  by (simp add: char_class_defs)

text \<open>
  C10.  When the text has \<^verbatim>\<open>Socket errors:\<close> (here for the first time after \<open>pre\<close>), followed
  on the same line by a text \<open>mid\<close> without digits and then by the digits \<open>ds\<close>, the field
  \<open>errors\<close> is the number \<open>ds\<close>: the first count of the line.  Whatever follows (\<open>rest\<close>: the
  other labelled counts) has no part in it.
\<close>

theorem parse_wrk_errors_first_integer:
  assumes "output = pre @ ''Socket errors:'' @ mid @ ds @ rest"
    and "list_all (\<lambda>i. take 14 (drop i output) \<noteq> ''Socket errors:'') [0 ..< length pre]"
    and "list_all (\<lambda>c. \<not> is_digit c \<and> is_any c) mid"
    and "ds \<noteq> []" "list_all is_digit ds"
    and "rest = [] \<or> \<not> is_digit (hd rest)"
    and "parse_wrk output = Inr r"
  shows "errors r = py_int ds \<and> parse_wrk_output output = Inr r"
proof -
  define l where "l = ''Socket errors:''"
  have len: "length l = 14" by (simp add: l_def)
  have out: "output = pre @ l @ (mid @ ds @ rest)" using assms(1) by (simp add: l_def)
  have no_earlier: "take (length l) (drop i (pre @ l @ (mid @ ds @ rest))) \<noteq> l"
    if "i < length pre" for i
    using assms(2) that unfolding l_def [symmetric] out len by (simp add: list_all_iff)
  have tail: "rx_match [LazyStar is_any, Plus is_digit] (mid @ ds @ rest) = Some [mid, ds]"
    by (rule rx_match_lazy_then_digits [OF assms(3-6)])
  have "re_search (Lit l # [LazyStar is_any, Plus is_digit]) (pre @ l @ (mid @ ds @ rest))
      = Some (l # [mid, ds])"
    by (rule re_search_Lit_first [OF no_earlier tail])
  then have found: "re_search RX_ERRORS output = Some [l, mid, ds]"
    by (simp only: RX_ERRORS_def l_def out)
  have "errors r = errors (set_errors output metrics0)"
    using assms(7) by (rule parse_wrk_fields(7))
  also have "\<dots> = py_int ds"
    by (simp add: set_errors_def found group_text_def)
  finally show ?thesis using assms(7) by (simp add: parse_wrk_output_eq)
qed

theorem parse_wrk_errors_first_integer_witness:
  "\<exists>r. parse_wrk ''  Socket errors: connect 4, read 12, write 0, timeout 3'' = Inr r
       \<and> errors r = 4 \<and> errors r \<noteq> 4 + 12 + 0 + 3"
proof -
  define r where "r = metrics0\<lparr>errors := 4\<rparr>"
  have p: "parse_wrk ''  Socket errors: connect 4, read 12, write 0, timeout 3'' = Inr r"
    unfolding r_def by code_simp
  have "errors r = py_int ''4''
      \<and> parse_wrk_output ''  Socket errors: connect 4, read 12, write 0, timeout 3'' = Inr r"
    by (rule parse_wrk_errors_first_integer
        [where pre = "''  ''" and mid = "'' connect ''" and rest = "'', read 12, write 0, timeout 3''"])
      (simp_all add: p is_digit_def is_any_def upt_rec)
  then have "errors r = 4" by (simp add: py_int_def nat_of_digits_def digit_val_def)
  with p show ?thesis by auto
qed


section \<open>The readiness gate: what it returns, and after how many probes\<close>

lemma run_eq:
  "run w cwd argv tr =
     (run_result w tr cwd argv,
      tr @ [Run cwd argv (case run_result w tr cwd argv of Inl e \<Rightarrow> Inl e | Inr c \<Rightarrow> Inr (returncode c))])"
  by (simp add: run_def Let_def)



section \<open>The head-to-head rows\<close>

lemma h2h_rows_zip:
  "i + length scs \<le> length md \<Longrightarrow> i + length scs \<le> length od \<Longrightarrow>
     h2h_rows other scs i md od =
       Inr (map (\<lambda>(sc, m, ot). compare_row (fst sc) other m ot) (zip scs (zip (drop i md) (drop i od))))"
proof (induction scs arbitrary: i)
  case Nil
  then show ?case by simp
next
  case (Cons sc scs)
  then have lt: "i < length md" "i < length od" by simp_all
  have rec: "h2h_rows other scs (Suc i) md od =
      Inr (map (\<lambda>(sc, m, ot). compare_row (fst sc) other m ot)
             (zip scs (zip (drop (Suc i) md) (drop (Suc i) od))))"
    using Cons.prems by (intro Cons.IH) simp_all
  have d: "drop i md = md ! i # drop (Suc i) md" "drop i od = od ! i # drop (Suc i) od"
    using lt by (simp_all add: Cons_nth_drop_Suc)
  show ?case
    using lt by (simp add: py_index_def and_then_def rec d)
qed



section \<open>Traces and their effects\<close>

lemma effects_append [simp]: "effects (a @ b) = effects a @ effects b"
  by (simp add: effects_def map_filter_def)

lemma effects_Nil [simp]: "effects [] = []"
  by (simp add: effects_def)

lemma effects_Cons: "effects (ev # evs) = (case effect_of ev of None \<Rightarrow> effects evs | Some e \<Rightarrow> e # effects evs)"
  by (cases "effect_of ev") (simp_all add: effects_def)

lemma effects_single: "effects [ev] = (case effect_of ev of None \<Rightarrow> [] | Some e \<Rightarrow> [e])"
  by (simp add: effects_Cons split: option.splits)

lemma effect_Err [simp]: "effects (error msg tr) = effects tr"
  by (simp add: error_def effects_single)

lemma effect_sleep [simp]: "effects (sleep t tr) = effects tr"
  by (simp add: sleep_def effects_single)

lemma run_quiet:
  assumes "\<And>x. effect_of (Run cwd argv x) = None" and "run w cwd argv tr = (r, tr')"
  shows "\<exists>evs. tr' = tr @ evs \<and> effects evs = []"
proof -
  from assms(2) obtain x where "tr' = tr @ [Run cwd argv x]" by (auto simp: run_eq)
  then show ?thesis using assms(1) by (intro exI [of _ "[Run cwd argv x]"]) (simp add: effects_single)
qed

lemma quiet_probe: "effect_of (Run [] (probe_cmd url) x) = None"
  by (simp add: probe_cmd_def)

lemma quiet_warm: "effect_of (Run [] [''curl'', ''-s'', url] x) = None"
  by simp

lemma quiet_wrk: "effect_of (Run [] (wrk_cmd sc url) x) = None"
  by (cases sc) (simp add: wrk_cmd_def)

lemma quiet_which: "effect_of (Run [] [''which'', dep] x) = None"
  by simp

lemma quiet_npm: "effect_of (Run dir [''npm'', ''install''] x) = None"
  "effect_of (Run dir [''npm'', ''run'', ''build''] x) = None"
  "effect_of (Run dir [''cargo'', ''build'', ''--release''] x) = None"
  by simp_all

lemma quiet_build: "effect_of (Run [] (build_cmd fw) x) = None"
  by (simp add: build_cmd_def)

lemma effect_rm: "effect_of (Run [] (rm_cmd c) x) = (if isl x then None else Some (Removed c))"
  by (simp add: rm_cmd_def)

lemma effect_run:
  "effect_of (Run [] (run_cmd fw) x) = (if x = Inr 0 then Some (Started (container_name fw)) else None)"
  by (simp add: run_cmd_def)

lemmas quiet_cmds [simp] = quiet_probe quiet_warm quiet_wrk quiet_which quiet_npm quiet_build
  effect_rm effect_run

declare effect_of.simps(1) [simp del]


lemma extends_quietly_refl [simp]: "extends_quietly tr tr"
  by (simp add: extends_quietly_def)

lemma extends_quietly_trans:
  "extends_quietly a b \<Longrightarrow> extends_quietly b c \<Longrightarrow> extends_quietly a c"
  by (auto simp: extends_quietly_def)

lemma extends_quietly_error [simp]: "extends_quietly tr (error msg tr)"
  by (simp add: extends_quietly_def error_def effects_single)

lemma extends_quietly_sleep [simp]: "extends_quietly tr (sleep t tr)"
  by (simp add: extends_quietly_def sleep_def effects_single)

lemma extends_quietly_error': "extends_quietly a b \<Longrightarrow> extends_quietly a (error msg b)"
  by (erule extends_quietly_trans) simp

lemma extends_quietly_sleep': "extends_quietly a b \<Longrightarrow> extends_quietly a (sleep t b)"
  by (erule extends_quietly_trans) simp

lemma run_extends_quietly:
  "(\<And>x. effect_of (Run cwd argv x) = None) \<Longrightarrow> run w cwd argv tr = (r, tr') \<Longrightarrow> extends_quietly tr tr'"
  unfolding extends_quietly_def by (rule run_quiet)

lemma wait_for_loop_quiet: "wait_for_loop w url n tr = (b, tr') \<Longrightarrow> extends_quietly tr tr'"
proof (induction n arbitrary: tr)
  case 0
  then show ?case by simp
next
  case (Suc n)
  obtain r tr1 where r: "run w [] (probe_cmd url) tr = (r, tr1)"
    by (cases "run w [] (probe_cmd url) tr")
  have q1: "extends_quietly tr tr1"
    by (rule run_extends_quietly [OF quiet_probe r])
  show ?case
  proof (cases "\<exists>c. r = Inr c \<and> returncode c = 0")
    case True
    with Suc.prems r have "tr' = tr1" by auto
    with q1 show ?thesis by simp
  next
    case False
    with Suc.prems r have "wait_for_loop w url n (sleep 1 tr1) = (b, tr')"
      by (cases r) auto
    then have "extends_quietly (sleep 1 tr1) tr'" by (rule Suc.IH)
    with q1 show ?thesis
      by (meson extends_quietly_trans extends_quietly_sleep)
  qed
qed

lemma wait_for_quiet: "wait_for w url t tr = (b, tr') \<Longrightarrow> extends_quietly tr tr'"
  unfolding wait_for_def by (rule wait_for_loop_quiet)

lemma docker_build_quiet: "docker_build w k tr = (r, tr') \<Longrightarrow> extends_quietly tr tr'"
  unfolding docker_build_def Let_def
  by (auto split: prod.splits sum.splits if_splits
      intro!: extends_quietly_error' elim!: run_extends_quietly [rotated] simp: quiet_build)

lemma npm_build_quiet: "npm_build w dir msg tr = (r, tr') \<Longrightarrow> extends_quietly tr tr'"
  unfolding npm_build_def
  by (auto split: prod.splits sum.splits if_splits
      intro!: extends_quietly_error' elim!: run_extends_quietly [rotated] simp: quiet_npm)

lemma warm_up_quiet: "warm_up w url n tr = (r, tr') \<Longrightarrow> extends_quietly tr tr'"
proof (induction n arbitrary: tr)
  case 0
  then show ?case by simp
next
  case (Suc n)
  obtain x tr1 where x: "run w [] [''curl'', ''-s'', url] tr = (x, tr1)"
    by (cases "run w [] [''curl'', ''-s'', url] tr")
  have q1: "extends_quietly tr tr1"
    by (rule run_extends_quietly [OF quiet_warm x])
  show ?case
  proof (cases x)
    case (Inl e)
    with Suc.prems x have "tr' = tr1" by simp
    with q1 show ?thesis by simp
  next
    case (Inr c)
    with Suc.prems x have "warm_up w url n tr1 = (r, tr')" by simp
    then have "extends_quietly tr1 tr'" by (rule Suc.IH)
    with q1 show ?thesis by (rule extends_quietly_trans)
  qed
qed

lemma run_scenarios_loop_quiet:
  "run_scenarios_loop w url scs acc tr = (r, tr') \<Longrightarrow> extends_quietly tr tr'"
proof (induction scs arbitrary: acc tr)
  case Nil
  then show ?case by simp
next
  case (Cons sc scs)
  obtain x tr1 where x: "run w [] (wrk_cmd sc url) tr = (x, tr1)"
    by (cases "run w [] (wrk_cmd sc url) tr")
  have q1: "extends_quietly tr tr1"
    by (rule run_extends_quietly [OF quiet_wrk x])
  show ?case
  proof (cases x)
    case (Inl e)
    with Cons.prems x have "tr' = tr1" by simp
    with q1 show ?thesis by simp
  next
    case (Inr c)
    show ?thesis
    proof (cases "parse_wrk (stdout c @ stderr c)")
      case (Inl e)
      with Cons.prems x Inr have "tr' = tr1" by simp
      with q1 show ?thesis by simp
    next
      case m: (Inr m)
      with Cons.prems x Inr
      have "run_scenarios_loop w url scs (acc @ [mk_result sc m]) tr1 = (r, tr')" by simp
      then have "extends_quietly tr1 tr'" by (rule Cons.IH)
      with q1 show ?thesis by (rule extends_quietly_trans)
    qed
  qed
qed

lemma run_scenarios_loop_names:
  "run_scenarios_loop w url scs acc tr = (Inr rs, tr') \<Longrightarrow>
     map sc_name rs = map sc_name acc @ map fst scs"
proof (induction scs arbitrary: acc tr)
  case Nil
  then show ?case by simp
next
  case (Cons sc scs)
  from Cons.prems obtain c tr1 m where
    "run_scenarios_loop w url scs (acc @ [mk_result sc m]) tr1 = (Inr rs, tr')"
    by (auto split: prod.splits sum.splits)
  then have "map sc_name rs = map sc_name (acc @ [mk_result sc m]) @ map fst scs"
    by (rule Cons.IH)
  then show ?case by (cases sc) (simp add: mk_result_def)
qed

lemma run_scenarios_quiet: "run_scenarios w url tr = (r, tr') \<Longrightarrow> extends_quietly tr tr'"
  unfolding run_scenarios_def by (rule run_scenarios_loop_quiet)

lemma run_scenarios_names:
  "run_scenarios w url tr = (Inr rs, tr') \<Longrightarrow> map sc_name rs = map fst SCENARIOS"
  unfolding run_scenarios_def by (drule run_scenarios_loop_names) simp

lemma check_missing_quiet: "check_missing w deps missing tr = (r, tr') \<Longrightarrow> extends_quietly tr tr'"
proof (induction deps arbitrary: missing tr)
  case Nil
  then show ?case by simp
next
  case (Cons dep deps)
  obtain x tr1 where x: "run w [] [''which'', dep] tr = (x, tr1)"
    by (cases "run w [] [''which'', dep] tr")
  have q1: "extends_quietly tr tr1"
    by (rule run_extends_quietly [OF quiet_which x])
  show ?case
  proof (cases x)
    case (Inl e)
    with Cons.prems x have "tr' = tr1" by simp
    with q1 show ?thesis by simp
  next
    case (Inr c)
    with Cons.prems x obtain ms where "check_missing w deps ms tr1 = (r, tr')" by simp
    then have "extends_quietly tr1 tr'" by (rule Cons.IH)
    with q1 show ?thesis by (rule extends_quietly_trans)
  qed
qed

lemma check_deps_quiet:
  assumes "check_deps w d tr = (r, tr')"
  shows "extends_quietly tr tr'"
proof -
  let ?deps = "[''wrk'', ''curl''] @ (if d then [''docker''] else [])"
  obtain x tr1 where x: "check_missing w ?deps [] tr = (x, tr1)"
    by (cases "check_missing w ?deps [] tr")
  have q: "extends_quietly tr tr1" by (rule check_missing_quiet [OF x])
  from assms [unfolded check_deps_def x]
  have "tr' = tr1 \<or> (\<exists>msg. tr' = error msg tr1)"
    by (auto split: sum.splits if_splits)
  with q show ?thesis by (auto intro: extends_quietly_error')
qed


lemma local_build_quiet:
  assumes "local_build w k tr = (r, tr')"
  shows "extends_quietly tr tr'"
proof -
  let ?dir = "path_join COMPARE_DIR (app_dir (FRAMEWORKS k))"
  show ?thesis
  proof (cases "path_exists w tr ?dir")
    case False
    with assms show ?thesis by (auto simp: local_build_def Let_def)
  next
    case True
    obtain x tr1 where x: "run w ?dir [''npm'', ''install''] tr = (x, tr1)"
      by (cases "run w ?dir [''npm'', ''install''] tr")
    have q1: "extends_quietly tr tr1"
      by (rule run_extends_quietly [OF quiet_npm(1) x])
    show ?thesis
    proof (cases x)
      case (Inl e)
      with assms True x have "tr' = tr1" by (simp add: local_build_def Let_def)
      with q1 show ?thesis by simp
    next
      case (Inr c)
      show ?thesis
      proof (cases "returncode c \<noteq> 0")
        case True
        with assms \<open>path_exists w tr ?dir\<close> x Inr obtain msg where "tr' = error msg tr1"
          by (auto simp: local_build_def Let_def)
        with q1 show ?thesis by (auto intro: extends_quietly_error')
      next
        case False
        have "extends_quietly tr1 tr'"
        proof (cases k)
          case Metassr
          show ?thesis
          proof (cases "which_result w tr1 ''metassr''")
            case True
            with assms \<open>path_exists w tr ?dir\<close> x Inr False Metassr
            have "npm_build w ?dir ''MetaSSR app build failed:'' tr1 = (r, tr')"
              by (simp add: local_build_def Let_def)
            then show ?thesis by (rule npm_build_quiet)
          next
            case nw: False
            obtain y tr2 where y: "run w PROJECT_ROOT [''cargo'', ''build'', ''--release''] tr1 = (y, tr2)"
              by (cases "run w PROJECT_ROOT [''cargo'', ''build'', ''--release''] tr1")
            have q2: "extends_quietly tr1 tr2"
              by (rule run_extends_quietly [OF quiet_npm(3) y])
            from assms \<open>path_exists w tr ?dir\<close> x Inr False Metassr nw y
            have "tr' = tr2 \<or> (\<exists>msg. tr' = error msg tr2)
                \<or> npm_build w ?dir ''MetaSSR app build failed:'' tr2 = (r, tr')"
              by (auto simp: local_build_def Let_def split: sum.splits if_splits)
            with q2 show ?thesis
              by (auto intro: extends_quietly_error' extends_quietly_trans dest: npm_build_quiet)
          qed
        next
          case Nextjs
          with assms \<open>path_exists w tr ?dir\<close> x Inr False
          have "tr' = tr1 \<or> npm_build w ?dir ''Next.js build failed:'' tr1 = (r, tr')"
            by (auto simp: local_build_def Let_def split: if_splits)
          then show ?thesis by (auto dest: npm_build_quiet)
        qed
        with q1 show ?thesis by (rule extends_quietly_trans)
      qed
    qed
  qed
qed

lemma container_name_nonempty [simp]: "container_name fw \<noteq> []"
  by (simp add: container_name_def)

text \<open>What starting a container does to the trace: the removal of a stale container, and the start.\<close>

lemma docker_start_effect:
  assumes "docker_start w fw tr = (r, tr')"
  shows "\<exists>evs. tr' = tr @ evs
     \<and> ((effects evs = [Removed (container_name fw), Started (container_name fw)]
          \<and> r = Inr (Some (container_name fw)))
        \<or> ((effects evs = [] \<or> effects evs = [Removed (container_name fw)])
           \<and> (\<forall>n. r \<noteq> Inr (Some n))))"
proof -
  let ?c = "container_name fw"
  show ?thesis
  proof (cases "run_result w tr [] (rm_cmd ?c)")
    case (Inl e)
    let ?e1 = "Run [] (rm_cmd ?c) (Inl e)"
    from assms Inl have "tr' = tr @ [?e1]" "r = Inl e"
      by (simp_all add: docker_start_def Let_def run_eq)
    moreover have "effects [?e1] = []" by (simp add: effects_single)
    ultimately show ?thesis by blast
  next
    case (Inr c1)
    let ?e1 = "Run [] (rm_cmd ?c) (Inr (returncode c1))"
    have eff1: "effect_of ?e1 = Some (Removed ?c)" by simp
    show ?thesis
    proof (cases "run_result w (tr @ [?e1]) [] (run_cmd fw)")
      case (Inl e)
      let ?e2 = "Run [] (run_cmd fw) (Inl e)"
      from assms Inr Inl have "tr' = tr @ [?e1, ?e2]" "r = Inl e"
        by (simp_all add: docker_start_def Let_def run_eq)
      moreover have "effects [?e1, ?e2] = [Removed ?c]"
        by (simp add: effects_Cons)
      ultimately show ?thesis by blast
    next
      case c2: (Inr c2)
      let ?e2 = "Run [] (run_cmd fw) (Inr (returncode c2))"
      show ?thesis
      proof (cases "returncode c2 = 0")
        case True
        with assms Inr c2 have "tr' = tr @ [?e1, ?e2]" "r = Inr (Some ?c)"
          by (simp_all add: docker_start_def Let_def run_eq)
        moreover have "effects [?e1, ?e2] = [Removed ?c, Started ?c]"
          using True by (simp add: effects_Cons)
        ultimately show ?thesis by blast
      next
        case False
        with assms Inr c2 have "\<exists>msg. tr' = tr @ [?e1, ?e2, Err msg]" and "r = Inr None"
          by (auto simp add: docker_start_def Let_def run_eq error_def)
        then obtain msg where "tr' = tr @ [?e1, ?e2, Err msg]" "r = Inr None"
          by blast
        moreover have "effects [?e1, ?e2, Err msg] = [Removed ?c]" for msg
          using False by (simp add: effects_Cons)
        ultimately show ?thesis by blast
      qed
    qed
  qed
qed

lemma local_start_effect:
  assumes "local_start w k tr = (r, tr')"
  shows "\<exists>evs. tr' = tr @ evs \<and> effects evs = (case r of Inr p \<Rightarrow> [Spawned p] | Inl e \<Rightarrow> [])"
proof -
  from assms obtain cwd argv where "tr' = tr @ [Spawn cwd argv r]"
    by (auto simp: local_start_def popen_def Let_def)
  then show ?thesis
    by (intro exI [of _ "[Spawn cwd argv r]"]) (simp add: effects_single split: sum.splits)
qed

lemma started_containers_append [simp]:
  "started_containers (a @ b) = started_containers a @ started_containers b"
  by (simp add: started_containers_def map_filter_def)

lemma spawned_processes_append [simp]:
  "spawned_processes (a @ b) = spawned_processes a @ spawned_processes b"
  by (simp add: spawned_processes_def map_filter_def)

lemma started_spawned_of_effects:
  "effects evs = [] \<Longrightarrow> started_containers evs = [] \<and> spawned_processes evs = []"
  "effects evs = [Removed c] \<Longrightarrow> started_containers evs = [] \<and> spawned_processes evs = []"
  "effects evs = [Removed c, Started c] \<Longrightarrow> started_containers evs = [c] \<and> spawned_processes evs = []"
  "effects evs = [Spawned p] \<Longrightarrow> started_containers evs = [] \<and> spawned_processes evs = [p]"
  by (simp_all add: started_containers_def spawned_processes_def)

text \<open>
  What bringing a target up does: it leaves the results alone, its effects are those of one
  target, and the containers and processes it registers are the ones it started.
\<close>

lemma bring_up_effect:
  assumes "bring_up w a k s = (r, s')"
  shows "\<exists>evs. trace s' = trace s @ evs \<and> all_results s' = all_results s
     \<and> target_effects (container_name (FRAMEWORKS k)) (effects evs)
     \<and> containers s' = containers s @ started_containers evs
     \<and> processes s' = processes s @ spawned_processes evs"
proof (cases "docker a")
  case True
  let ?c = "container_name (FRAMEWORKS k)"
  let ?skip = "error (''Skipping '' @ fw_name (FRAMEWORKS k))"
  obtain b tr1 where b: "docker_build w k (trace s) = (b, tr1)"
    by (cases "docker_build w k (trace s)")
  from docker_build_quiet [OF b] obtain e1 where e1: "tr1 = trace s @ e1" "effects e1 = []"
    by (auto simp: extends_quietly_def)
  have skip: ?thesis if "s' = s\<lparr>trace := tr1 @ e\<rparr>" "effects e = [] \<or> effects e = [Removed ?c]" for e
    using that e1
    by (intro exI [of _ "e1 @ e"]) (auto simp: target_effects_def started_spawned_of_effects)
  show ?thesis
  proof (cases b)
    case (Inl e)
    with assms True b have "s' = s\<lparr>trace := tr1 @ []\<rparr>" by (simp add: bring_up_def Let_def)
    then show ?thesis by (rule skip) simp
  next
    case (Inr built)
    show ?thesis
    proof (cases built)
      case False
      with assms True b Inr have "s' = s\<lparr>trace := tr1 @ [Err (''Skipping '' @ fw_name (FRAMEWORKS k))]\<rparr>"
        by (simp add: bring_up_def Let_def error_def)
      then show ?thesis by (rule skip) (simp add: effects_single)
    next
      case built: True
      obtain x tr2 where x: "docker_start w (FRAMEWORKS k) tr1 = (x, tr2)"
        by (cases "docker_start w (FRAMEWORKS k) tr1")
      from docker_start_effect [OF x] obtain e2 where e2: "tr2 = tr1 @ e2"
        and cases: "(effects e2 = [Removed ?c, Started ?c] \<and> x = Inr (Some ?c))
          \<or> ((effects e2 = [] \<or> effects e2 = [Removed ?c]) \<and> (\<forall>n. x \<noteq> Inr (Some n)))"
        by blast
      from cases show ?thesis
      proof
        assume ok: "effects e2 = [Removed ?c, Started ?c] \<and> x = Inr (Some ?c)"
        with assms True b Inr built x
        have "s' = s\<lparr>trace := tr2, containers := containers s @ [?c]\<rparr>"
          by (simp add: bring_up_def Let_def)
        with e1 e2 ok show ?thesis
          by (intro exI [of _ "e1 @ e2"])
            (simp add: target_effects_def started_spawned_of_effects)
      next
        assume no: "(effects e2 = [] \<or> effects e2 = [Removed ?c]) \<and> (\<forall>n. x \<noteq> Inr (Some n))"
        show ?thesis
        proof (cases x)
          case (Inl e)
          with assms True b \<open>b = Inr built\<close> built x have "s' = s\<lparr>trace := tr1 @ e2\<rparr>"
            by (simp add: bring_up_def Let_def e2)
          moreover from no have "effects e2 = [] \<or> effects e2 = [Removed ?c]" by simp
          ultimately show ?thesis by (rule skip)
        next
          case (Inr v)
          with no have "v = None" by (cases v) auto
          with assms True b \<open>b = Inr built\<close> built x Inr
          have "s' = s\<lparr>trace := tr1 @ (e2 @ [Err (''Skipping '' @ fw_name (FRAMEWORKS k))])\<rparr>"
            by (simp add: bring_up_def Let_def e2 error_def)
          moreover from no
          have "effects (e2 @ [Err (''Skipping '' @ fw_name (FRAMEWORKS k))]) = []
              \<or> effects (e2 @ [Err (''Skipping '' @ fw_name (FRAMEWORKS k))]) = [Removed ?c]"
            by (auto simp: effects_single)
          ultimately show ?thesis by (rule skip)
        qed
      qed
    qed
  qed
next
  case False
  let ?url = "url_of (FRAMEWORKS k)"
  obtain b tr1 where b: "wait_for w ?url 2 (trace s) = (b, tr1)"
    by (cases "wait_for w ?url 2 (trace s)")
  from wait_for_quiet [OF b] obtain e1 where e1: "tr1 = trace s @ e1" "effects e1 = []"
    by (auto simp: extends_quietly_def)
  have skip: ?thesis if "s' = s\<lparr>trace := tr1 @ e\<rparr>" "effects e = []" for e
    using that e1
    by (intro exI [of _ "e1 @ e"]) (auto simp: target_effects_def started_spawned_of_effects)
  show ?thesis
  proof (cases b)
    case True
    with assms False b have "s' = s\<lparr>trace := tr1 @ []\<rparr>" by (simp add: bring_up_def Let_def)
    then show ?thesis by (rule skip) simp
  next
    case nb: False
    let ?build = "if \<not> skip_build a then local_build w k tr1 else (Inr True, tr1)"
    obtain y tr2 where y: "?build = (y, tr2)" by (cases ?build)
    have "extends_quietly tr1 tr2"
      using y by (auto split: if_splits dest: local_build_quiet)
    then obtain e2 where e2: "tr2 = tr1 @ e2" "effects e2 = []"
      by (auto simp: extends_quietly_def)
    show ?thesis
    proof (cases y)
      case (Inl e)
      with assms \<open>\<not> docker a\<close> b nb y have "s' = s\<lparr>trace := tr1 @ e2\<rparr>"
        by (simp add: bring_up_def Let_def e2)
      then show ?thesis using e2(2) by (rule skip)
    next
      case (Inr built)
      show ?thesis
      proof (cases built)
        case False
        with assms \<open>\<not> docker a\<close> b nb y Inr
        have "s' = s\<lparr>trace := tr1 @ (e2 @ [Err (''Skipping '' @ fw_name (FRAMEWORKS k))])\<rparr>"
          by (simp add: bring_up_def Let_def e2 error_def)
        then show ?thesis by (rule skip) (simp add: effects_single e2)
      next
        case True
        obtain z tr3 where z: "local_start w k tr2 = (z, tr3)"
          by (cases "local_start w k tr2")
        from local_start_effect [OF z] obtain e3 where e3: "tr3 = tr2 @ e3"
          "effects e3 = (case z of Inr p \<Rightarrow> [Spawned p] | Inl e \<Rightarrow> [])"
          by blast
        show ?thesis
        proof (cases z)
          case (Inl e)
          with assms \<open>\<not> docker a\<close> b nb y \<open>y = Inr built\<close> True z
          have "s' = s\<lparr>trace := tr1 @ (e2 @ e3)\<rparr>"
            by (simp add: bring_up_def Let_def e2 e3)
          then show ?thesis by (rule skip) (simp add: e2 e3 Inl)
        next
          case (Inr p)
          with assms \<open>\<not> docker a\<close> b nb y \<open>y = Inr built\<close> True z
          have "s' = s\<lparr>trace := tr3, processes := processes s @ [p]\<rparr>"
            by (simp add: bring_up_def Let_def)
          with e1 e2 e3 Inr show ?thesis
            by (intro exI [of _ "e1 @ e2 @ e3"])
              (simp add: target_effects_def started_spawned_of_effects)
        qed
      qed
    qed
  qed
qed


text \<open>
  What the rest of the loop body does: no effect on containers or processes; the results
  stay as they are, or the target gets a complete list, in the order of the scenarios.
\<close>

lemma measure_target_effect:
  assumes "measure_target w k s = (r, s')"
  shows "extends_quietly (trace s) (trace s') \<and> containers s' = containers s
     \<and> processes s' = processes s
     \<and> (all_results s' = all_results s
        \<or> (\<exists>rs. r = None \<and> fst (wait_for w (url_of (FRAMEWORKS k)) 60 (trace s))
              \<and> all_results s' = AList.update k rs (all_results s)
              \<and> map sc_name rs = map fst SCENARIOS))"
proof -
  let ?url = "url_of (FRAMEWORKS k)"
  obtain b tr1 where b: "wait_for w ?url 60 (trace s) = (b, tr1)"
    by (cases "wait_for w ?url 60 (trace s)")
  have q1: "extends_quietly (trace s) tr1" by (rule wait_for_quiet [OF b])
  show ?thesis
  proof (cases b)
    case False
    with assms b have "s' = s\<lparr>trace := error (fw_name (FRAMEWORKS k) @ '' did not start, skipping'') tr1\<rparr>"
      by (simp add: measure_target_def Let_def)
    with q1 show ?thesis by (simp add: extends_quietly_error')
  next
    case True
    obtain x tr2 where x: "warm_up w ?url 10 tr1 = (x, tr2)"
      by (cases "warm_up w ?url 10 tr1")
    have q2: "extends_quietly (trace s) tr2"
      using q1 warm_up_quiet [OF x] by (rule extends_quietly_trans)
    show ?thesis
    proof (cases x)
      case (Some e)
      with assms b True x have "s' = s\<lparr>trace := tr2\<rparr>"
        by (simp add: measure_target_def Let_def)
      with q2 show ?thesis by simp
    next
      case None
      obtain y tr3 where y: "run_scenarios w ?url (sleep 2 tr2) = (y, tr3)"
        by (cases "run_scenarios w ?url (sleep 2 tr2)")
      have q3: "extends_quietly (trace s) tr3"
        using q2 run_scenarios_quiet [OF y]
        by (meson extends_quietly_trans extends_quietly_sleep)
      show ?thesis
      proof (cases y)
        case (Inl e)
        with assms b True x None y have "s' = s\<lparr>trace := tr3\<rparr>"
          by (simp add: measure_target_def Let_def)
        with q3 show ?thesis by simp
      next
        case (Inr rs)
        with assms b True x None y
        have s': "s' = s\<lparr>trace := tr3, all_results := AList.update k rs (all_results s)\<rparr>"
          and r: "r = None"
          by (simp_all add: measure_target_def Let_def)
        have "map sc_name rs = map fst SCENARIOS"
          using y Inr by (auto dest: run_scenarios_names)
        with s' r q3 b True show ?thesis by auto
      qed
    qed
  qed
qed

lemma process_target_effect:
  assumes "process_target w a k s = (r, s')"
  shows "\<exists>evs. trace s' = trace s @ evs
     \<and> target_effects (container_name (FRAMEWORKS k)) (effects evs)
     \<and> containers s' = containers s @ started_containers evs
     \<and> processes s' = processes s @ spawned_processes evs"
proof -
  obtain x s1 where x: "bring_up w a k s = (x, s1)" by (cases "bring_up w a k s")
  from bring_up_effect [OF x] obtain e1 where e1: "trace s1 = trace s @ e1"
    "target_effects (container_name (FRAMEWORKS k)) (effects e1)"
    "containers s1 = containers s @ started_containers e1"
    "processes s1 = processes s @ spawned_processes e1"
    by blast
  show ?thesis
  proof (cases "x = Inr True")
    case False
    with assms x have "s' = s1" by (cases x) (auto simp: process_target_def split: bool.splits)
    with e1 show ?thesis by blast
  next
    case True
    with assms x have m: "measure_target w k s1 = (r, s')" by (simp add: process_target_def)
    from measure_target_effect [OF m] obtain e2 where e2: "trace s' = trace s1 @ e2" "effects e2 = []"
      and same: "containers s' = containers s1" "processes s' = processes s1"
      by (auto simp: extends_quietly_def)
    have "started_containers e2 = []" "spawned_processes e2 = []"
      using e2(2) by (simp_all add: started_spawned_of_effects)
    with e1 e2 same show ?thesis
      by (intro exI [of _ "e1 @ e2"]) simp
  qed
qed

lemma process_target_results:
  assumes "process_target w a k s = (r, s')"
  shows "all_results s' = all_results s
     \<or> (\<exists>s1 rs. r = None \<and> bring_up w a k s = (Inr True, s1)
           \<and> fst (wait_for w (url_of (FRAMEWORKS k)) 60 (trace s1))
           \<and> all_results s' = AList.update k rs (all_results s)
           \<and> map sc_name rs = map fst SCENARIOS)"
proof -
  obtain x s1 where x: "bring_up w a k s = (x, s1)" by (cases "bring_up w a k s")
  from bring_up_effect [OF x] have same: "all_results s1 = all_results s" by blast
  show ?thesis
  proof (cases "x = Inr True")
    case False
    with assms x have "s' = s1" by (cases x) (auto simp: process_target_def split: bool.splits)
    with same show ?thesis by simp
  next
    case True
    with assms x have m: "measure_target w k s1 = (r, s')" by (simp add: process_target_def)
    from measure_target_effect [OF m] same x True show ?thesis by auto
  qed
qed

lemma process_target_raise_keeps_results:
  "process_target w a k s = (Some e, s') \<Longrightarrow> all_results s' = all_results s"
  by (drule process_target_results) auto

section \<open>The loop over the targets\<close>

lemma container_name_inj:
  "container_name (FRAMEWORKS k) = container_name (FRAMEWORKS k') \<Longrightarrow> k = k'"
  by (cases k; cases k') (simp_all add: container_name_def)

lemma target_effects_live:
  assumes "target_effects c (effects evs)"
  shows "set (started_containers evs) \<subseteq> {c}"
    and "c \<notin> L \<Longrightarrow> foldl live_step L (effects evs) = L \<union> set (started_containers evs)"
    and "foldl proc_step P (effects evs) = P \<union> set (spawned_processes evs)"
  using assms
  by (auto simp: target_effects_def started_containers_def spawned_processes_def
      live_step_def proc_step_def)

text \<open>
  The loop registers exactly the handles it creates, in the order it creates them, and
  releases none of them.
\<close>

lemma main_loop_handles:
  "main_loop w a fws s = (r, s') \<Longrightarrow>
     \<exists>evs. trace s' = trace s @ evs
       \<and> containers s' = containers s @ started_containers evs
       \<and> processes s' = processes s @ spawned_processes evs
       \<and> set (started_containers evs) \<subseteq> (\<lambda>k. container_name (FRAMEWORKS k)) ` set fws
       \<and> foldl proc_step P (effects evs) = P \<union> set (spawned_processes evs)"
proof (induction fws arbitrary: s P)
  case Nil
  then show ?case by (intro exI [of _ "[]"]) (simp add: started_containers_def spawned_processes_def)
next
  case (Cons k fws)
  obtain x s1 where x: "process_target w a k s = (x, s1)" by (cases "process_target w a k s")
  from process_target_effect [OF x] obtain e1 where e1: "trace s1 = trace s @ e1"
    "target_effects (container_name (FRAMEWORKS k)) (effects e1)"
    "containers s1 = containers s @ started_containers e1"
    "processes s1 = processes s @ spawned_processes e1"
    by blast
  note live1 = target_effects_live [OF e1(2)]
  show ?case
  proof (cases x)
    case (Some e)
    with Cons.prems x have "s' = s1" by simp
    with e1 live1 show ?thesis
      by (intro exI [of _ e1]) auto
  next
    case None
    with Cons.prems x have "main_loop w a fws s1 = (r, s')" by simp
    from Cons.IH [OF this, of "P \<union> set (spawned_processes e1)"]
    obtain e2 where e2: "trace s' = trace s1 @ e2"
      "containers s' = containers s1 @ started_containers e2"
      "processes s' = processes s1 @ spawned_processes e2"
      "set (started_containers e2) \<subseteq> (\<lambda>k. container_name (FRAMEWORKS k)) ` set fws"
      "foldl proc_step (P \<union> set (spawned_processes e1)) (effects e2)
         = P \<union> set (spawned_processes e1) \<union> set (spawned_processes e2)"
      by blast
    show ?thesis
      using e1 e2 live1
      by (intro exI [of _ "e1 @ e2"]) auto
  qed
qed

text \<open>
  With distinct targets no container that was started is removed inside the loop: all of
  them are still there when the loop ends.
\<close>

lemma main_loop_live:
  "main_loop w a fws s = (r, s') \<Longrightarrow> distinct fws \<Longrightarrow>
   \<forall>k\<in>set fws. container_name (FRAMEWORKS k) \<notin> L \<Longrightarrow>
     \<exists>evs. trace s' = trace s @ evs
       \<and> set (started_containers evs) \<subseteq> (\<lambda>k. container_name (FRAMEWORKS k)) ` set fws
       \<and> foldl live_step L (effects evs) = L \<union> set (started_containers evs)"
proof (induction fws arbitrary: s L)
  case Nil
  then show ?case by (intro exI [of _ "[]"]) (simp add: started_containers_def)
next
  case (Cons k fws)
  let ?cn = "\<lambda>k. container_name (FRAMEWORKS k)"
  obtain x s1 where x: "process_target w a k s = (x, s1)" by (cases "process_target w a k s")
  from process_target_effect [OF x] obtain e1 where e1: "trace s1 = trace s @ e1"
    "target_effects (?cn k) (effects e1)"
    by blast
  have notin: "?cn k \<notin> L" using Cons.prems(3) by simp
  note live1 = target_effects_live(1) [OF e1(2)] target_effects_live(2) [OF e1(2) notin]
  show ?case
  proof (cases x)
    case (Some e)
    with Cons.prems x have "s' = s1" by simp
    with e1 live1 show ?thesis
      by (intro exI [of _ e1]) auto
  next
    case None
    with Cons.prems x have loop: "main_loop w a fws s1 = (r, s')" by simp
    have d: "distinct fws" using Cons.prems(2) by simp
    have fresh: "\<forall>k'\<in>set fws. ?cn k' \<notin> L \<union> set (started_containers e1)"
    proof
      fix k' assume k': "k' \<in> set fws"
      then have "k' \<noteq> k" using Cons.prems(2) by auto
      then have "?cn k' \<noteq> ?cn k" using container_name_inj by blast
      moreover have "?cn k' \<notin> L" using Cons.prems(3) k' by simp
      ultimately show "?cn k' \<notin> L \<union> set (started_containers e1)"
        using live1(1) by auto
    qed
    from Cons.IH [OF loop d fresh]
    obtain e2 where e2: "trace s' = trace s1 @ e2"
      "set (started_containers e2) \<subseteq> ?cn ` set fws"
      "foldl live_step (L \<union> set (started_containers e1)) (effects e2)
         = L \<union> set (started_containers e1) \<union> set (started_containers e2)"
      by blast
    show ?thesis
      using e1 e2 live1
      by (intro exI [of _ "e1 @ e2"]) auto
  qed
qed


section \<open>The cleanup\<close>


















section \<open>The run as a whole\<close>

lemma main_loop_append:
  "main_loop w a (fws1 @ fws2) s =
     (case main_loop w a fws1 s of
        (Some e, s1) \<Rightarrow> (Some e, s1)
      | (None, s1) \<Rightarrow> main_loop w a fws2 s1)"
  by (induction fws1 arbitrary: s) (auto split: prod.splits option.splits)




lemma main_outputs:
  assumes "main w a = (Inr out, s)"
  shows "report_json out = snapshot w (docker a) (all_results s)"
    and "out_dir out = path_join (path_join PROJECT_ROOT (output_dir a)) (now_dirname w)"
proof -
  from assms have "generate_report w (all_results s)
      (path_join PROJECT_ROOT (output_dir a)) (docker a) = Inr out"
    by (auto simp: main_def split: prod.splits option.splits if_splits)
  then obtain secs where "out = \<lparr>out_dir = path_join (path_join PROJECT_ROOT (output_dir a)) (now_dirname w),
      h2h = secs, report_json = snapshot w (docker a) (all_results s)\<rparr>"
    by (auto simp: generate_report_def and_then_def split: if_splits sum.splits)
  then show "report_json out = snapshot w (docker a) (all_results s)"
    and "out_dir out = path_join (path_join PROJECT_ROOT (output_dir a)) (now_dirname w)"
    by simp_all
qed


lemma bring_up_skips:
  "docker a \<Longrightarrow> docker_build w k (trace s) = (Inr False, tr1) \<Longrightarrow> fst (bring_up w a k s) = Inr False"
  "docker a \<Longrightarrow> docker_build w k (trace s) = (Inr True, tr1) \<Longrightarrow>
     docker_start w (FRAMEWORKS k) tr1 = (Inr None, tr2) \<Longrightarrow> fst (bring_up w a k s) = Inr False"
  "\<not> docker a \<Longrightarrow> \<not> skip_build a \<Longrightarrow> wait_for w (url_of (FRAMEWORKS k)) 2 (trace s) = (False, tr1) \<Longrightarrow>
     local_build w k tr1 = (Inr False, tr2) \<Longrightarrow> fst (bring_up w a k s) = Inr False"
  by (simp_all add: bring_up_def Let_def)



text \<open>
  C2, as the code has it.  The targets are processed one after the other, in the order
  given (the loop over \<open>fws1 @ fws2\<close> is the loop over \<open>fws1\<close> and then, from the state it
  left, the loop over \<open>fws2\<close>), but no target is torn down before the next one begins: when
  the loop over distinct targets ends, every container it started and every process it
  spawned is still there, and they are the ones registered for the cleanup.
\<close>

theorem targets_stay_up_until_cleanup:
  assumes "check_deps w (docker a) [] = (None, tr0)"
    and "main_try w a tr0 = (r1, s1)"
    and "distinct (frameworks a)"
  shows "\<exists>evs. trace s1 = tr0 @ evs
     \<and> containers s1 = started_containers evs
     \<and> processes s1 = spawned_processes evs
     \<and> live_containers (trace s1) = set (started_containers evs)
     \<and> live_processes (trace s1) = set (spawned_processes evs)
     \<and> main_loop w a (fws1 @ fws2) s =
         (case main_loop w a fws1 s of
            (Some e, s') \<Rightarrow> (Some e, s')
          | (None, s') \<Rightarrow> main_loop w a fws2 s')"
proof -
  from check_deps_quiet [OF assms(1)] have q0: "effects tr0 = []"
    by (simp add: extends_quietly_def)
  from main_loop_handles [OF assms(2) [unfolded main_try_def], of "{}"]
  obtain evs where evs: "trace s1 = tr0 @ evs"
    "containers s1 = started_containers evs" "processes s1 = spawned_processes evs"
    "foldl proc_step {} (effects evs) = set (spawned_processes evs)"
    by (auto simp: state0_def)
  from main_loop_live [OF assms(2) [unfolded main_try_def] assms(3), of "{}"]
  obtain evs' where evs': "trace s1 = tr0 @ evs'"
    "foldl live_step {} (effects evs') = set (started_containers evs')"
    by (auto simp: state0_def)
  have same: "evs' = evs" using evs(1) evs'(1) by simp
  have "live_containers (trace s1) = set (started_containers evs)"
    using evs'(2) by (simp add: live_containers_def evs(1) q0 same)
  moreover have "live_processes (trace s1) = set (spawned_processes evs)"
    using evs(4) by (simp add: live_processes_def evs(1) q0)
  ultimately show ?thesis
    using evs main_loop_append by blast
qed



text \<open>
  C6, as the code has it.  When \<^verbatim>\<open>main\<close> returns normally, the snapshot \<^verbatim>\<open>report.json\<close> of the
  directory named by the time has exactly four fields, in this order: \<^verbatim>\<open>timestamp\<close>,
  \<^verbatim>\<open>system\<close> (the environment), \<^verbatim>\<open>mode\<close> (\<^verbatim>\<open>docker\<close> or \<^verbatim>\<open>local\<close>) and \<^verbatim>\<open>frameworks\<close> (the targets), and
  \<^verbatim>\<open>frameworks\<close> has one field for each key of the result set, in insertion order, with the
  list of that target's results in order.
\<close>

theorem snapshot_has_four_fields:
  assumes "main w a = (Inr out, s)"
  shows "json_fields (report_json out) =
           [(''timestamp'', JStr (now_iso w)),
            (''system'', system_info w),
            (''mode'', JStr (if docker a then ''docker'' else ''local'')),
            (''frameworks'',
               JObj (map (\<lambda>(k, rs). (key_str k, JArr (map result_json rs))) (all_results s)))]
     \<and> out_dir out = path_join (path_join PROJECT_ROOT (output_dir a)) (now_dirname w)"
  using main_outputs [OF assms] by (simp add: snapshot_def)


section \<open>The report of a complete result set\<close>

lemma h2h_sections_total:
  "length SCENARIOS \<le> length md \<Longrightarrow> \<forall>(k, rs)\<in>set results. length SCENARIOS \<le> length rs \<Longrightarrow>
     \<exists>secs. h2h_sections md results = Inr secs"
proof (induction results)
  case Nil
  then show ?case by simp
next
  case (Cons p results)
  obtain k od where p: "p = (k, od)" by (cases p)
  from Cons.prems have od: "length SCENARIOS \<le> length od" by (simp add: p)
  from Cons obtain secs where secs: "h2h_sections md results = Inr secs" by auto
  have "\<exists>rows. h2h_rows (fw_name (FRAMEWORKS k)) SCENARIOS 0 md od = Inr rows"
    using h2h_rows_zip [of 0 SCENARIOS md od] Cons.prems(1) od by simp
  then show ?case using secs by (auto simp: p and_then_def)
qed

text \<open>
  With complete lists for all targets (which the loop guarantees), \<^verbatim>\<open>generate_report\<close> raises
  nothing.
\<close>

lemma head_to_head_total:
  assumes "\<forall>(k, rs)\<in>set results. length rs = length SCENARIOS"
  shows "\<exists>secs. head_to_head results = Inr secs"
proof -
  have ge: "\<forall>(k, rs)\<in>set results. length SCENARIOS \<le> length rs" using assms by auto
  show ?thesis
  proof (cases "map_of results Metassr")
    case None
    then show ?thesis by (simp add: head_to_head_def)
  next
    case (Some md)
    then have "(Metassr, md) \<in> set results" by (rule map_of_SomeD)
    with ge have "length SCENARIOS \<le> length md" by auto
    from h2h_sections_total [OF this ge] Some show ?thesis
      by (auto simp: head_to_head_def)
  qed
qed

lemma generate_report_total:
  assumes "\<forall>(k, rs)\<in>set results. length rs = length SCENARIOS"
  shows "\<exists>secs. generate_report w results dir d =
           Inr \<lparr>out_dir = path_join dir (now_dirname w), h2h = secs,
                report_json = snapshot w d results\<rparr>"
proof -
  have "\<not> list_ex (\<lambda>(k, rs). length rs < length SCENARIOS) results"
    using assms by (auto simp: list_ex_iff)
  with head_to_head_total [OF assms] show ?thesis
    by (auto simp: generate_report_def and_then_def)
qed

section \<open>Runs in the two worlds\<close>

lemma after_wrk_simps [simp]:
  "after_wrk [] = False"
  "after_wrk (tr @ [Run cwd argv r]) = is_wrk argv"
  "after_wrk (tr @ [Sleep t]) = False"
  by (simp_all add: after_wrk_def)

lemma demo_run:
  "\<not> (f \<and> is_rm argv \<and> after_wrk tr) \<Longrightarrow>
     run (demo_world f) cwd argv tr = (Inr ok_run, tr @ [Run cwd argv (Inr 0)])"
  by (auto simp: run_eq demo_world_def ok_run_def)


lemma not_rm [simp]:
  "\<not> is_rm (probe_cmd url)"
  "\<not> is_rm (wrk_cmd sc url)"
  "\<not> is_rm (build_cmd fw)"
  "\<not> is_rm (run_cmd fw)"
  "\<not> is_rm [''curl'', ''-s'', url]"
  "\<not> is_rm [''which'', dep]"
  by (cases sc; simp add: is_rm_def probe_cmd_def wrk_cmd_def build_cmd_def run_cmd_def)+

lemma not_wrk [simp]:
  "\<not> is_wrk (build_cmd fw)"
  "\<not> is_wrk (rm_cmd c)"
  "\<not> is_wrk (run_cmd fw)"
  by (simp_all add: is_wrk_def build_cmd_def rm_cmd_def run_cmd_def)

lemma is_wrk_cmd [simp]: "is_wrk (wrk_cmd sc url)"
  by (cases sc) (simp add: is_wrk_def wrk_cmd_def)

lemma demo_args_simps [simp]:
  "frameworks demo_args = [Metassr, Nextjs]" "docker demo_args" "\<not> skip_build demo_args"
  "output_dir demo_args = ''.bench/apps''"
  by (simp_all add: demo_args_def)

lemma demo_check_deps: "check_deps (demo_world f) True [] = (None, demo_deps_events)"
  by (simp add: check_deps_def demo_run ok_run_def demo_deps_events_def)

lemma demo_docker_build:
  "docker_build (demo_world f) k tr = (Inr True, tr @ [Run [] (build_cmd (FRAMEWORKS k)) (Inr 0)])"
  by (simp add: docker_build_def Let_def demo_run ok_run_def)

lemma demo_docker_start:
  "\<not> after_wrk tr \<Longrightarrow>
   docker_start (demo_world f) fw tr =
     (Inr (Some (container_name fw)),
      tr @ [Run [] (rm_cmd (container_name fw)) (Inr 0), Run [] (run_cmd fw) (Inr 0)])"
  by (simp add: docker_start_def Let_def demo_run ok_run_def)

lemma demo_bring_up:
  "bring_up (demo_world f) demo_args k s =
     (Inr True, s\<lparr>trace := trace s @ demo_start_events k,
                  containers := containers s @ [container_name (FRAMEWORKS k)]\<rparr>)"
  by (simp add: bring_up_def Let_def demo_docker_build demo_docker_start demo_start_events_def)

lemma demo_wait_for:
  "wait_for (demo_world f) url 60 tr = (True, tr @ [Run [] (probe_cmd url) (Inr 0)])"
proof -
  have "nat 60 = Suc 59" by simp
  then show ?thesis
    by (simp only: wait_for_def wait_for_loop.simps) (simp add: demo_run ok_run_def)
qed

lemma demo_warm_up:
  "warm_up (demo_world f) url n tr = (None, tr @ replicate n (Run [] [''curl'', ''-s'', url] (Inr 0)))"
proof (induction n arbitrary: tr)
  case 0
  then show ?case by simp
next
  case (Suc n)
  show ?case
    by (simp add: demo_run Suc.IH replicate_app_Cons_same)
qed

lemma parse_wrk_empty: "parse_wrk [] = Inr metrics0"
  by code_simp

lemma demo_run_scenarios_loop:
  "run_scenarios_loop (demo_world f) url scs acc tr =
     (Inr (acc @ map (\<lambda>sc. mk_result sc metrics0) scs),
      tr @ map (\<lambda>sc. Run [] (wrk_cmd sc url) (Inr 0)) scs)"
proof (induction scs arbitrary: acc tr)
  case Nil
  then show ?case by simp
next
  case (Cons sc scs)
  show ?case
    by (simp add: demo_run ok_run_def parse_wrk_empty Cons.IH)
qed

lemma demo_measure_target:
  "measure_target (demo_world f) k s =
     (None, s\<lparr>trace := trace s @ demo_measure_events k,
               all_results := AList.update k demo_results (all_results s)\<rparr>)"
  by (simp add: measure_target_def Let_def demo_wait_for demo_warm_up sleep_def
      run_scenarios_def demo_run_scenarios_loop demo_measure_events_def demo_results_def)

lemma demo_process_target:
  "process_target (demo_world f) demo_args k s =
     (None, s\<lparr>trace := trace s @ demo_start_events k @ demo_measure_events k,
               containers := containers s @ [container_name (FRAMEWORKS k)],
               all_results := AList.update k demo_results (all_results s)\<rparr>)"
  by (simp add: process_target_def demo_bring_up demo_measure_target)

lemma demo_main_try:
  "main_try (demo_world f) demo_args tr0 = (None, demo_state (tr0 @ demo_loop_events))"
  by (simp add: main_try_def state0_def demo_process_target container_name_def demo_state_def
      demo_loop_events_def)





lemma demo_cleanup:
  "cleanup (demo_world False) (demo_state tr) = (None, demo_state (tr @ demo_cleanup_events))"
  by (simp add: cleanup_def demo_state_def docker_stop_def demo_run demo_cleanup_events_def)


lemma demo_results_complete:
  "\<forall>(k, rs)\<in>set (all_results (demo_state tr)). length rs = length SCENARIOS"
  by (simp add: demo_state_def demo_results_def)

lemma demo_main:
  "\<exists>secs. main (demo_world False) demo_args =
     (Inr \<lparr>out_dir = path_join (path_join PROJECT_ROOT ''.bench/apps'') ''2025-01-01-00-00-00'',
           h2h = secs,
           report_json = snapshot (demo_world False) True (all_results (demo_state []))\<rparr>,
      demo_state (demo_deps_events @ demo_loop_events @ demo_cleanup_events))"
proof -
  let ?s = "demo_state (demo_deps_events @ demo_loop_events @ demo_cleanup_events)"
  have "\<exists>secs. generate_report (demo_world False) (all_results ?s)
      (path_join PROJECT_ROOT ''.bench/apps'') True =
        Inr \<lparr>out_dir = path_join (path_join PROJECT_ROOT ''.bench/apps'') (now_dirname (demo_world False)),
             h2h = secs, report_json = snapshot (demo_world False) True (all_results ?s)\<rparr>"
    by (rule generate_report_total [OF demo_results_complete])
  then obtain secs where "generate_report (demo_world False) (all_results ?s)
      (path_join PROJECT_ROOT ''.bench/apps'') True =
        Inr \<lparr>out_dir = path_join (path_join PROJECT_ROOT ''.bench/apps'') (now_dirname (demo_world False)),
             h2h = secs, report_json = snapshot (demo_world False) True (all_results ?s)\<rparr>" ..
  moreover have "all_results ?s \<noteq> []" "all_results ?s = all_results (demo_state [])"
    "now_dirname (demo_world False) = ''2025-01-01-00-00-00''"
    by (simp_all add: demo_state_def demo_world_def)
  ultimately show ?thesis
    by (simp add: main_def demo_check_deps demo_main_try demo_cleanup)
qed


lemma effects_quiet: "\<forall>ev\<in>set evs. effect_of ev = None \<Longrightarrow> effects evs = []"
  by (induction evs) (simp_all add: effects_Cons)

lemma demo_effects:
  "effects demo_deps_events = []"
  "effects (demo_start_events Metassr) = [Removed ''metassr-bench-run'', Started ''metassr-bench-run'']"
  "effects (demo_start_events Nextjs) = [Removed ''nextjs-bench-run'', Started ''nextjs-bench-run'']"
  "effects (demo_measure_events k) = []"
  "effects demo_cleanup_events = [Removed ''metassr-bench-run'', Removed ''nextjs-bench-run'']"
  "effects [Run [] (rm_cmd c) (Inl OSError)] = []"
  by (simp_all add: demo_deps_events_def demo_start_events_def demo_measure_events_def
      demo_cleanup_events_def effects_Cons effects_quiet container_name_def)

lemma demo_loop_effects:
  "effects demo_loop_events =
     [Removed ''metassr-bench-run'', Started ''metassr-bench-run'',
      Removed ''nextjs-bench-run'', Started ''nextjs-bench-run'']"
  by (simp add: demo_loop_events_def demo_effects)




section \<open>What the two runs show\<close>



text \<open>
  In \<open>demo_world False\<close>, when the second target is about to be measured, and still when its
  last scenario has run, the container of the first target is there too.
\<close>

theorem both_containers_live_in_second_measurement:
  "main_try (demo_world False) demo_args demo_deps_events
     = (None, demo_state (demo_deps_events @ demo_loop_events))
   \<and> demo_loop_events = demo_start_events Metassr @ demo_measure_events Metassr
       @ demo_start_events Nextjs @ demo_measure_events Nextjs
   \<and> live_containers (demo_deps_events @ demo_start_events Metassr @ demo_measure_events Metassr
       @ demo_start_events Nextjs) = {''metassr-bench-run'', ''nextjs-bench-run''}
   \<and> live_containers (demo_deps_events @ demo_loop_events)
       = {''metassr-bench-run'', ''nextjs-bench-run''}"
proof -
  have "live_containers (demo_deps_events @ demo_start_events Metassr @ demo_measure_events Metassr
       @ demo_start_events Nextjs) = {''metassr-bench-run'', ''nextjs-bench-run''}"
    by (auto simp: live_containers_def demo_effects live_step_def)
  moreover have "live_containers (demo_deps_events @ demo_loop_events)
       = {''metassr-bench-run'', ''nextjs-bench-run''}"
    by (auto simp: live_containers_def demo_effects demo_loop_effects live_step_def)
  ultimately show ?thesis
    using demo_main_try [of False demo_deps_events] demo_loop_events_def by blast
qed

theorem targets_stay_up_until_cleanup_witness:
  "distinct (frameworks demo_args)
   \<and> containers (snd (main_try (demo_world False) demo_args demo_deps_events))
       = started_containers demo_loop_events
   \<and> live_containers (trace (snd (main_try (demo_world False) demo_args demo_deps_events)))
       = set (started_containers demo_loop_events)"
proof -
  have chk: "check_deps (demo_world False) (docker demo_args) [] = (None, demo_deps_events)"
    by (simp add: demo_check_deps)
  have dist: "distinct (frameworks demo_args)" by simp
  note th = targets_stay_up_until_cleanup [OF chk demo_main_try dist,
      where ?fws1.0 = "[]" and ?fws2.0 = "[]" and s = "state0 []"]
  let ?s1 = "demo_state (demo_deps_events @ demo_loop_events)"
  from th obtain evs where evs: "trace ?s1 = demo_deps_events @ evs"
    "containers ?s1 = started_containers evs"
    "live_containers (trace ?s1) = set (started_containers evs)"
    by blast
  from evs(1) have "evs = demo_loop_events" by (simp add: demo_state_def)
  with evs dist show ?thesis by (simp add: demo_main_try)
qed



text \<open>The snapshot of the run in \<open>demo_world False\<close> has a field \<^verbatim>\<open>mode\<close>, four fields in all.\<close>

theorem snapshot_has_mode_field:
  "map fst (json_fields (report_json (projr (fst (main (demo_world False) demo_args)))))
     = [''timestamp'', ''system'', ''mode'', ''frameworks'']
   \<and> length (json_fields (report_json (projr (fst (main (demo_world False) demo_args))))) = 4"
proof -
  from demo_main obtain secs where "main (demo_world False) demo_args =
     (Inr \<lparr>out_dir = path_join (path_join PROJECT_ROOT ''.bench/apps'') ''2025-01-01-00-00-00'',
           h2h = secs,
           report_json = snapshot (demo_world False) True (all_results (demo_state []))\<rparr>,
      demo_state (demo_deps_events @ demo_loop_events @ demo_cleanup_events))" ..
  then show ?thesis by (simp add: snapshot_def)
qed

theorem snapshot_has_four_fields_witness:
  "\<not> isl (fst (main (demo_world False) demo_args))
   \<and> json_fields (report_json (projr (fst (main (demo_world False) demo_args)))) ! 2
       = (''mode'', JStr ''docker'')
   \<and> map fst (json_fields (snd (json_fields (report_json (projr (fst (main (demo_world False) demo_args)))) ! 3)))
       = [''metassr'', ''nextjs'']"
proof -
  from demo_main obtain out where m: "main (demo_world False) demo_args =
     (Inr out, demo_state (demo_deps_events @ demo_loop_events @ demo_cleanup_events))"
    by blast
  note th = snapshot_has_four_fields [OF m]
  then show ?thesis by (simp add: m demo_state_def)
qed



end
